theory Spec2Isabelle
  imports Main
begin

section \<open>Tokens\<close>

text \<open>
  Modelled from the spec: the parser of \<^verbatim>\<open>pkg/parser/parser.go\<close> reads tokens of
  the package \<^verbatim>\<open>lexer\<close>, whose declarations are not part of the sources at hand. A
  token has a kind, its text, a line and a column. The kinds below are the constants
  that the parser names; \<open>ZEROVALUE\<close> is the kind of a token that has not been read
  yet (the zero value of the Go struct), \<open>ILLEGAL\<close> stands for every kind that the
  parser never names.
\<close>

datatype (plugins only: code) TokenType =
    ZEROVALUE | ILLEGAL | EOF
  | IDENT | NUMBER | STRING
  | ASSIGN | EQ | NOT_EQ | LT | GT | LTE | GTE
  | PLUS | MINUS | ASTERISK | SLASH
  | COMMA | SEMICOLON | DOT | LPAREN | RPAREN
  | SELECT | INSERT | UPDATE | DELETE | CREATE | DROP | ALTER
  | DISTINCT | TOP | FROM | WHERE
  | JOIN | INNER | LEFT | RIGHT | FULL | ON
  | GROUP | BY | HAVING | ORDER | AS
  | AND | OR | LIKE | IN

record Token =
  Type :: TokenType
  Literal :: string
  Line :: int
  Column :: int

definition zeroToken :: Token where
  "zeroToken = \<lparr>Type = ZEROVALUE, Literal = [], Line = 0, Column = 0\<rparr>"

definition eofToken :: Token where
  "eofToken = \<lparr>Type = EOF, Literal = [], Line = 0, Column = 0\<rparr>"

text \<open>
  Modelled from the spec: the tokenizer (package \<^verbatim>\<open>lexer\<close>) is not part of the
  sources at hand. Its state is the list of tokens it has still to deliver;
  \<open>NextToken\<close> delivers the next one and, past the end of the input, delivers
  \<open>EOF\<close> again and again.
\<close>

definition NextToken :: "Token list \<Rightarrow> Token \<times> Token list" where
  "NextToken ts = (case ts of [] \<Rightarrow> (eofToken, []) | t # rest \<Rightarrow> (t, rest))"

section \<open>Syntax trees\<close>

datatype LiteralValue = IntValue int | FloatValue string | StringValue string

datatype Expression =
    ColumnReference string string
  | LiteralE LiteralValue
  | BinaryExpression Expression string Expression
  | StarExpression string
  | FunctionCall string "Expression list"

record TopClause =
  Count :: int
  Percent :: bool

record TableReference =
  Schema :: string
  Name :: string
  Alias :: string

record FromClause =
  Tables :: "TableReference list"

record JoinClause =
  JoinType :: string
  Table :: TableReference
  Condition :: "Expression option"

record OrderByClause =
  Expression :: Expression
  Direction :: string

record SelectStatement =
  Distinct :: bool
  Top :: "TopClause option"
  Columns :: "Expression list"
  From :: "FromClause option"
  Joins :: "JoinClause list"
  Where :: "Expression option"
  GroupBy :: "Expression list"
  Having :: "Expression option"
  OrderBy :: "OrderByClause list"

datatype Statement = SelectStmt SelectStatement

section \<open>Errors and parser state\<close>

text \<open>
  A returned \<^verbatim>\<open>error\<close> is the format string of \<^verbatim>\<open>fmt.Errorf\<close> with its
  arguments. An entry of the accumulated list \<^verbatim>\<open>p.errors\<close> is a message, or the
  syntax error of \<^verbatim>\<open>peekError\<close>. Modelled from the spec: \<^verbatim>\<open>NewSyntaxError\<close> is
  not part of the sources at hand; its error is kept with the four arguments that
  \<^verbatim>\<open>peekError\<close> passes (expected kind, kind found, line, column).
\<close>

datatype error = Errorf string "string list"

datatype ErrorEntry = Message string | SyntaxError TokenType TokenType int int

datatype NodeKind =
  SelectStatementNode | JoinClauseNode | BinaryExpressionNode | ColumnReferenceNode

datatype PoolEvent = Get NodeKind | Put NodeKind

text \<open>
  The fields of the Go struct, without the start time. \<open>ctx\<close> is the cancellation
  signal as the parser can observe it: \<open>None\<close> is a context that is never done,
  \<open>Some k\<close> one that is found not done by the next \<open>k\<close> checks and done by every
  later one. \<open>pool\<close> is the trace of the calls to the object pools, which are
  package-level state in the Go code.
\<close>

record Parser =
  l :: "Token list"
  curToken :: Token
  peekToken :: Token
  errors :: "ErrorEntry list"
  tokenCount :: int
  ctx :: "nat option"
  pool :: "PoolEvent list"

definition cancelled :: ErrorEntry where
  "cancelled = Message ''parsing cancelled due to timeout''"

definition advance :: "Parser \<Rightarrow> Parser" where
  "advance p = (case NextToken (l p) of (t, rest) \<Rightarrow>
     p\<lparr>curToken := peekToken p, peekToken := t, l := rest,
       tokenCount := tokenCount p + 1\<rparr>)"

definition nextToken :: "Parser \<Rightarrow> Parser" where
  "nextToken p = (case ctx p of
       Some 0 \<Rightarrow> p\<lparr>errors := errors p @ [cancelled]\<rparr>
     | Some (Suc k) \<Rightarrow> advance (p\<lparr>ctx := Some k\<rparr>)
     | None \<Rightarrow> advance p)"

definition NewWithContext :: "nat option \<Rightarrow> Token list \<Rightarrow> Parser" where
  "NewWithContext c input =
     nextToken (nextToken \<lparr>l = input, curToken = zeroToken, peekToken = zeroToken,
       errors = [], tokenCount = 0, ctx = c, pool = []\<rparr>)"

definition New :: "Token list \<Rightarrow> Parser" where
  "New input = NewWithContext None input"

definition peekError :: "TokenType \<Rightarrow> Parser \<Rightarrow> Parser" where
  "peekError t p = p\<lparr>errors := errors p @
     [SyntaxError t (Type (peekToken p)) (Line (peekToken p)) (Column (peekToken p))]\<rparr>"

definition curTokenIs :: "TokenType \<Rightarrow> Parser \<Rightarrow> bool" where
  "curTokenIs t p = (Type (curToken p) = t)"

definition peekTokenIs :: "TokenType \<Rightarrow> Parser \<Rightarrow> bool" where
  "peekTokenIs t p = (Type (peekToken p) = t)"

definition expectPeek :: "TokenType \<Rightarrow> Parser \<Rightarrow> bool \<times> Parser" where
  "expectPeek t p = (if peekTokenIs t p then (True, nextToken p) else (False, peekError t p))"

text \<open>
  Modelled from the spec: the object pools (\<^verbatim>\<open>GetSelectStatement\<close>,
  \<^verbatim>\<open>PutJoinClause\<close> and the others) are not part of the sources at hand. A
  \<open>Get\<close> hands out an empty node and a \<open>Put\<close> takes a node back; the model records
  each call in the trace \<open>pool\<close>.
\<close>

definition GetNode :: "NodeKind \<Rightarrow> Parser \<Rightarrow> Parser" where
  "GetNode k p = p\<lparr>pool := pool p @ [Get k]\<rparr>"

definition PutNode :: "NodeKind \<Rightarrow> Parser \<Rightarrow> Parser" where
  "PutNode k p = p\<lparr>pool := pool p @ [Put k]\<rparr>"

abbreviation "GetSelectStatement \<equiv> GetNode SelectStatementNode"
abbreviation "PutSelectStatement \<equiv> PutNode SelectStatementNode"
abbreviation "GetJoinClause \<equiv> GetNode JoinClauseNode"
abbreviation "PutJoinClause \<equiv> PutNode JoinClauseNode"
abbreviation "GetBinaryExpression \<equiv> GetNode BinaryExpressionNode"
abbreviation "GetColumnReference \<equiv> GetNode ColumnReferenceNode"

text \<open>
  The functions of Go's standard library that the parser calls are parameters of the
  model: \<open>Atoi\<close> and \<open>ParseInt\<close> (called with base 0 and 64 bits) return
  \<open>None\<close> where \<^verbatim>\<open>strconv\<close> returns an error, \<open>ParseFloatOk\<close> tells whether
  \<^verbatim>\<open>strconv.ParseFloat\<close> accepts the text, \<open>ToUpper\<close> is \<^verbatim>\<open>strings.ToUpper\<close>.
  A float literal keeps its text: floating point values are not modelled.
\<close>

record GoLib =
  Atoi :: "string \<Rightarrow> int option"
  ParseInt :: "string \<Rightarrow> int option"
  ParseFloatOk :: "string \<Rightarrow> bool"
  ToUpper :: "string \<Rightarrow> string"

section \<open>The parser\<close>

text \<open>
  A parsing function returns its value or its error together with the parser it leaves
  behind, since the Go code changes the parser also on the paths that fail. The
  functions that loop or recurse take fuel and return \<open>None\<close> when it runs out. Every
  loop iteration uses one unit, and so does every call of a function of the expression
  parser other than \<^verbatim>\<open>parseExpression\<close>, which only calls
  \<^verbatim>\<open>parseInfixExpression\<close>. A loop of the Go code is a function of its own, named
  after the function it stands in.

  \<^verbatim>\<open>synchronize\<close>, \<^verbatim>\<open>noPrefixParseFnError\<close>, \<^verbatim>\<open>unexpectedTokenError\<close> and
  \<^verbatim>\<open>GetParseMetrics\<close> are not called on any path of \<^verbatim>\<open>ParseStatement\<close> and are
  left out.
\<close>

type_synonym 'a result = "(error + 'a) \<times> Parser"

definition bind :: "'a result option \<Rightarrow> ('a \<Rightarrow> Parser \<Rightarrow> 'b result option) \<Rightarrow> 'b result option" where
  "bind m f = (case m of
       None \<Rightarrow> None
     | Some (Inl e, p) \<Rightarrow> Some (Inl e, p)
     | Some (Inr x, p) \<Rightarrow> f x p)"

text \<open>
  The Go idiom \<^verbatim>\<open>if err != nil { cleanup; return nil, err }\<close>: on an error the
  cleanup \<open>h\<close> is applied to the parser before the error is passed on.
\<close>

definition onError :: "(Parser \<Rightarrow> Parser) \<Rightarrow> 'a result option \<Rightarrow> 'a result option" where
  "onError h m = (case m of Some (Inl e, p) \<Rightarrow> Some (Inl e, h p) | _ \<Rightarrow> m)"

definition parseTopClause :: "GoLib \<Rightarrow> Parser \<Rightarrow> TopClause result" where
  "parseTopClause lib p =
    (if \<not> curTokenIs TOP p then (Inl (Errorf ''expected TOP, got %s'' [Literal (curToken p)]), p)
     else let p = nextToken p in
       if \<not> curTokenIs NUMBER p
       then (Inl (Errorf ''expected number after TOP, got %s'' [Literal (curToken p)]), p)
       else case Atoi lib (Literal (curToken p)) of
           None \<Rightarrow> (Inl (Errorf ''invalid number in TOP clause: %s'' [Literal (curToken p)]), p)
         | Some count \<Rightarrow>
            let topClause = \<lparr>Count = count, Percent = False\<rparr>; p = nextToken p in
            if curTokenIs IDENT p \<and> ToUpper lib (Literal (curToken p)) = ''PERCENT''
            then (Inr (topClause\<lparr>Percent := True\<rparr>), nextToken p)
            else (Inr topClause, p))"

definition parseTableReference :: "Parser \<Rightarrow> TableReference result" where
  "parseTableReference p =
    (if \<not> curTokenIs IDENT p
     then (Inl (Errorf ''expected table name, got %s'' [Literal (curToken p)]), p)
     else
       let table = \<lparr>Schema = [], Name = [], Alias = []\<rparr>;
           firstIdent = Literal (curToken p);
           p = nextToken p
       in case
         (if curTokenIs DOT p then
            let p = nextToken p in
            if \<not> curTokenIs IDENT p
            then (Inl (Errorf ''expected table name after dot, got %s'' [Literal (curToken p)]), p)
            else (Inr (table\<lparr>Schema := firstIdent, Name := Literal (curToken p)\<rparr>), nextToken p)
          else (Inr (table\<lparr>Name := firstIdent\<rparr>), p))
       of (Inl e, p) \<Rightarrow> (Inl e, p)
        | (Inr table, p) \<Rightarrow>
           if curTokenIs AS p then
             let p = nextToken p in
             if \<not> curTokenIs IDENT p
             then (Inl (Errorf ''expected alias after AS, got %s'' [Literal (curToken p)]), p)
             else (Inr (table\<lparr>Alias := Literal (curToken p)\<rparr>), nextToken p)
           else if curTokenIs IDENT p
           then (Inr (table\<lparr>Alias := Literal (curToken p)\<rparr>), nextToken p)
           else (Inr table, p))"

definition parseNumberLiteral :: "GoLib \<Rightarrow> Parser \<Rightarrow> Expression result" where
  "parseNumberLiteral lib p =
    (if CHR ''.'' \<in> set (Literal (curToken p)) then
       if \<not> ParseFloatOk lib (Literal (curToken p))
       then (Inl (Errorf ''could not parse %q as float'' [Literal (curToken p)]), p)
       else (Inr (LiteralE (FloatValue (Literal (curToken p)))), nextToken p)
     else case ParseInt lib (Literal (curToken p)) of
         None \<Rightarrow> (Inl (Errorf ''could not parse %q as integer'' [Literal (curToken p)]), p)
       | Some v \<Rightarrow> (Inr (LiteralE (IntValue v)), nextToken p))"

definition parseStringLiteral :: "Parser \<Rightarrow> Expression result" where
  "parseStringLiteral p = (Inr (LiteralE (StringValue (Literal (curToken p)))), nextToken p)"

definition isInfixOperator :: "TokenType \<Rightarrow> bool" where
  "isInfixOperator tokenType \<longleftrightarrow> tokenType \<in> set [ASSIGN, EQ, NOT_EQ, LT, GT, LTE, GTE,
     AND, OR, PLUS, MINUS, ASTERISK, SLASH, LIKE, IN]"

function (sequential) parseExpression :: "GoLib \<Rightarrow> nat \<Rightarrow> Parser \<Rightarrow> Expression result option"
and parseInfixExpression :: "GoLib \<Rightarrow> nat \<Rightarrow> Parser \<Rightarrow> Expression result option"
and parseInfixExpression_loop :: "GoLib \<Rightarrow> nat \<Rightarrow> Expression \<Rightarrow> Parser \<Rightarrow> Expression result option"
and parsePrimaryExpression :: "GoLib \<Rightarrow> nat \<Rightarrow> Parser \<Rightarrow> Expression result option"
and parseIdentifierExpression :: "GoLib \<Rightarrow> nat \<Rightarrow> Parser \<Rightarrow> Expression result option"
and parseFunctionCall :: "GoLib \<Rightarrow> nat \<Rightarrow> string \<Rightarrow> Parser \<Rightarrow> Expression result option"
and parseFunctionCall_loop :: "GoLib \<Rightarrow> nat \<Rightarrow> Expression list \<Rightarrow> Parser \<Rightarrow> (Expression list) result option"
and parseGroupedExpression :: "GoLib \<Rightarrow> nat \<Rightarrow> Parser \<Rightarrow> Expression result option"
where
  "parseExpression lib n p = parseInfixExpression lib n p"
| "parseInfixExpression lib 0 p = None"
| "parseInfixExpression lib (Suc n) p =
     bind (parsePrimaryExpression lib n p) (\<lambda>left p. parseInfixExpression_loop lib n left p)"
| "parseInfixExpression_loop lib 0 left p = None"
| "parseInfixExpression_loop lib (Suc n) left p =
     (if isInfixOperator (Type (curToken p)) then
        let operator = Literal (curToken p); p = nextToken p in
        bind (parsePrimaryExpression lib n p) (\<lambda>right p.
          parseInfixExpression_loop lib n (BinaryExpression left operator right)
            (GetBinaryExpression p))
      else Some (Inr left, p))"
| "parsePrimaryExpression lib 0 p = None"
| "parsePrimaryExpression lib (Suc n) p =
     (if Type (curToken p) = IDENT then parseIdentifierExpression lib n p
      else if Type (curToken p) = NUMBER then Some (parseNumberLiteral lib p)
      else if Type (curToken p) = STRING then Some (parseStringLiteral p)
      else if Type (curToken p) = ASTERISK then Some (Inr (StarExpression []), nextToken p)
      else if Type (curToken p) = LPAREN then parseGroupedExpression lib n p
      else Some (Inl (Errorf ''unexpected token in expression: %s'' [Literal (curToken p)]), p))"
| "parseIdentifierExpression lib 0 p = None"
| "parseIdentifierExpression lib (Suc n) p =
     (let firstIdent = Literal (curToken p); p = nextToken p in
      if curTokenIs DOT p then
        let p = nextToken p in
        if \<not> curTokenIs IDENT p \<and> \<not> curTokenIs ASTERISK p
        then Some (Inl (Errorf ''expected column name after dot, got %s'' [Literal (curToken p)]), p)
        else if curTokenIs ASTERISK p
        then Some (Inr (StarExpression firstIdent), nextToken p)
        else Some (Inr (ColumnReference firstIdent (Literal (curToken p))),
                   nextToken (GetColumnReference p))
      else if curTokenIs LPAREN p then parseFunctionCall lib n firstIdent p
      else Some (Inr (ColumnReference [] firstIdent), GetColumnReference p))"
| "parseFunctionCall lib 0 name p = None"
| "parseFunctionCall lib (Suc n) name p =
     (if \<not> curTokenIs LPAREN p
      then Some (Inl (Errorf ''expected '(' for function call, got %s'' [Literal (curToken p)]), p)
      else
        let p = nextToken p in
        bind (if \<not> curTokenIs RPAREN p
              then bind (parseExpression lib n p) (\<lambda>arg p. parseFunctionCall_loop lib n [arg] p)
              else Some (Inr [], p))
          (\<lambda>arguments p.
             if \<not> curTokenIs RPAREN p
             then Some (Inl (Errorf ''expected ')' to close function call, got %s''
                          [Literal (curToken p)]), p)
             else Some (Inr (FunctionCall name arguments), nextToken p)))"
| "parseFunctionCall_loop lib 0 arguments p = None"
| "parseFunctionCall_loop lib (Suc n) arguments p =
     (if curTokenIs COMMA p then
        let p = nextToken p in
        bind (parseExpression lib n p) (\<lambda>arg p.
          parseFunctionCall_loop lib n (arguments @ [arg]) p)
      else Some (Inr arguments, p))"
| "parseGroupedExpression lib 0 p = None"
| "parseGroupedExpression lib (Suc n) p =
     (let p = nextToken p in
      bind (parseExpression lib n p) (\<lambda>exp p.
        case expectPeek RPAREN p of
          (False, p) \<Rightarrow> Some (Inl (Errorf ''expected ')' to close grouped expression'' []), p)
        | (True, p) \<Rightarrow> Some (Inr exp, p)))"

  by pat_completeness auto

termination
  apply (relation "case_sum
    (case_sum (case_sum (\<lambda>a. fst (snd a)) (\<lambda>a. fst (snd a)))
      (case_sum (\<lambda>a. fst (snd a)) (\<lambda>a. fst (snd a))))
    (case_sum (case_sum (\<lambda>a. fst (snd a)) (\<lambda>a. fst (snd a)))
      (case_sum (\<lambda>a. fst (snd a)) (\<lambda>a. fst (snd a)))) <*mlex*>
   case_sum (case_sum (case_sum (\<lambda>a. Suc 0) (\<lambda>a. 0)) (\<lambda>a. 0))
    (\<lambda>a. 0) <*mlex*>
   {}")
  apply (simp_all add: wf_mlex mlex_less mlex_leq)
  done

fun parseSelectList_loop :: "GoLib \<Rightarrow> nat \<Rightarrow> Expression list \<Rightarrow> Parser \<Rightarrow> (Expression list) result option" where
  "parseSelectList_loop lib 0 columns p = None"
| "parseSelectList_loop lib (Suc n) columns p =
     (if curTokenIs COMMA p then
        let p = nextToken p in
        if curTokenIs ASTERISK p
        then parseSelectList_loop lib n (columns @ [StarExpression []]) (nextToken p)
        else bind (parseExpression lib n p) (\<lambda>expr p.
               parseSelectList_loop lib n (columns @ [expr]) p)
      else Some (Inr columns, p))"

definition parseSelectList :: "GoLib \<Rightarrow> nat \<Rightarrow> Parser \<Rightarrow> (Expression list) result option" where
  "parseSelectList lib n p =
     (if curTokenIs ASTERISK p then Some (Inr [StarExpression []], nextToken p)
      else bind (parseExpression lib n p) (\<lambda>expr p. parseSelectList_loop lib n [expr] p))"

fun parseFromClause_loop :: "nat \<Rightarrow> FromClause \<Rightarrow> Parser \<Rightarrow> FromClause result option" where
  "parseFromClause_loop 0 fromClause p = None"
| "parseFromClause_loop (Suc n) fromClause p =
     (if curTokenIs COMMA p then
        let p = nextToken p in
        bind (Some (parseTableReference p)) (\<lambda>table p.
          parseFromClause_loop n (fromClause\<lparr>Tables := Tables fromClause @ [table]\<rparr>) p)
      else Some (Inr fromClause, p))"

definition parseFromClause :: "nat \<Rightarrow> Parser \<Rightarrow> FromClause result option" where
  "parseFromClause n p =
     (if \<not> curTokenIs FROM p
      then Some (Inl (Errorf ''expected FROM, got %s'' [Literal (curToken p)]), p)
      else
        let p = nextToken p; fromClause = \<lparr>Tables = []\<rparr> in
        bind (Some (parseTableReference p)) (\<lambda>table p.
          parseFromClause_loop n (fromClause\<lparr>Tables := Tables fromClause @ [table]\<rparr>) p))"

text \<open>
  The four branches of \<^verbatim>\<open>parseJoinClause\<close> for a join with a type keyword have
  the same text up to the keyword; \<open>joinKeyword\<close> is that text.
\<close>

definition joinKeyword :: "string \<Rightarrow> JoinClause \<Rightarrow> Parser \<Rightarrow> JoinClause result" where
  "joinKeyword kw joinClause p =
     (let joinClause = joinClause\<lparr>JoinType := kw\<rparr>; p = nextToken p in
      case expectPeek JOIN p of
        (False, p) \<Rightarrow> (Inl (Errorf (''expected JOIN after '' @ kw) []), PutJoinClause p)
      | (True, p) \<Rightarrow> (Inr joinClause, p))"

definition parseJoinClause :: "GoLib \<Rightarrow> nat \<Rightarrow> Parser \<Rightarrow> JoinClause result option" where
  "parseJoinClause lib n p =
     (let joinClause = \<lparr>JoinType = [], Table = \<lparr>Schema = [], Name = [], Alias = []\<rparr>,
                         Condition = None\<rparr>;
          p = GetJoinClause p
      in
      bind
        (if curTokenIs INNER p then Some (joinKeyword ''INNER'' joinClause p)
         else if curTokenIs LEFT p then Some (joinKeyword ''LEFT'' joinClause p)
         else if curTokenIs RIGHT p then Some (joinKeyword ''RIGHT'' joinClause p)
         else if curTokenIs FULL p then Some (joinKeyword ''FULL'' joinClause p)
         else if curTokenIs JOIN p
         then Some (Inr (joinClause\<lparr>JoinType := ''INNER''\<rparr>), nextToken p)
         else Some (Inr joinClause, p)) (\<lambda>joinClause p.
      bind (onError PutJoinClause (Some (parseTableReference p))) (\<lambda>table p.
        let joinClause = joinClause\<lparr>Table := table\<rparr> in
        if \<not> curTokenIs ON p
        then Some (Inl (Errorf ''expected ON after JOIN table, got %s'' [Literal (curToken p)]),
                   PutJoinClause p)
        else
          let p = nextToken p in
          bind (onError PutJoinClause (parseExpression lib n p)) (\<lambda>condition p.
            Some (Inr (joinClause\<lparr>Condition := Some condition\<rparr>), p)))))"

fun parseGroupByClause_loop :: "GoLib \<Rightarrow> nat \<Rightarrow> Expression list \<Rightarrow> Parser \<Rightarrow> (Expression list) result option" where
  "parseGroupByClause_loop lib 0 expressions p = None"
| "parseGroupByClause_loop lib (Suc n) expressions p =
     (if curTokenIs COMMA p then
        let p = nextToken p in
        bind (parseExpression lib n p) (\<lambda>expr p.
          parseGroupByClause_loop lib n (expressions @ [expr]) p)
      else Some (Inr expressions, p))"

definition parseGroupByClause :: "GoLib \<Rightarrow> nat \<Rightarrow> Parser \<Rightarrow> (Expression list) result option" where
  "parseGroupByClause lib n p =
     (if \<not> curTokenIs GROUP p
      then Some (Inl (Errorf ''expected GROUP, got %s'' [Literal (curToken p)]), p)
      else
        let p = nextToken p in
        case expectPeek BY p of
          (False, p) \<Rightarrow> Some (Inl (Errorf ''expected BY after GROUP'' []), p)
        | (True, p) \<Rightarrow>
            let p = nextToken p in
            bind (parseExpression lib n p) (\<lambda>expr p. parseGroupByClause_loop lib n [expr] p))"

definition parseOrderByItem :: "GoLib \<Rightarrow> nat \<Rightarrow> Parser \<Rightarrow> OrderByClause result option" where
  "parseOrderByItem lib n p =
     bind (parseExpression lib n p) (\<lambda>expr p.
       let clause = \<lparr>Expression = expr, Direction = ''ASC''\<rparr> in
       if curTokenIs IDENT p then
         let direction = ToUpper lib (Literal (curToken p)) in
         if direction = ''ASC'' \<or> direction = ''DESC''
         then Some (Inr (clause\<lparr>Direction := direction\<rparr>), nextToken p)
         else Some (Inr clause, p)
       else Some (Inr clause, p))"

fun parseOrderByClause_loop :: "GoLib \<Rightarrow> nat \<Rightarrow> OrderByClause list \<Rightarrow> Parser \<Rightarrow> (OrderByClause list) result option" where
  "parseOrderByClause_loop lib 0 clauses p = None"
| "parseOrderByClause_loop lib (Suc n) clauses p =
     (if curTokenIs COMMA p then
        let p = nextToken p in
        bind (parseOrderByItem lib n p) (\<lambda>clause p.
          parseOrderByClause_loop lib n (clauses @ [clause]) p)
      else Some (Inr clauses, p))"

definition parseOrderByClause :: "GoLib \<Rightarrow> nat \<Rightarrow> Parser \<Rightarrow> (OrderByClause list) result option" where
  "parseOrderByClause lib n p =
     (if \<not> curTokenIs ORDER p
      then Some (Inl (Errorf ''expected ORDER, got %s'' [Literal (curToken p)]), p)
      else
        let p = nextToken p in
        case expectPeek BY p of
          (False, p) \<Rightarrow> Some (Inl (Errorf ''expected BY after ORDER'' []), p)
        | (True, p) \<Rightarrow>
            let p = nextToken p in
            bind (parseOrderByItem lib n p) (\<lambda>clause p. parseOrderByClause_loop lib n [clause] p))"

text \<open>The loop \<^verbatim>\<open>// Parse JOINs\<close> of \<^verbatim>\<open>parseSelectStatement\<close>.\<close>

fun parseSelectStatement_joins :: "GoLib \<Rightarrow> nat \<Rightarrow> SelectStatement \<Rightarrow> Parser \<Rightarrow> SelectStatement result option" where
  "parseSelectStatement_joins lib 0 stmt p = None"
| "parseSelectStatement_joins lib (Suc n) stmt p =
     (if curTokenIs JOIN p \<or> curTokenIs INNER p \<or> curTokenIs LEFT p \<or> curTokenIs RIGHT p
         \<or> curTokenIs FULL p
      then bind (parseJoinClause lib n p) (\<lambda>joinClause p.
             parseSelectStatement_joins lib n (stmt\<lparr>Joins := Joins stmt @ [joinClause]\<rparr>) p)
      else Some (Inr stmt, p))"

definition emptySelectStatement :: SelectStatement where
  "emptySelectStatement = \<lparr>Distinct = False, Top = None, Columns = [], From = None,
     Joins = [], Where = None, GroupBy = [], Having = None, OrderBy = []\<rparr>"

definition parseSelectStatement :: "GoLib \<Rightarrow> nat \<Rightarrow> Parser \<Rightarrow> SelectStatement result option" where
  "parseSelectStatement lib n p =
     (let stmt = emptySelectStatement; p = GetSelectStatement p in
      if \<not> curTokenIs SELECT p
      then Some (Inl (Errorf ''expected SELECT, got %s'' [Literal (curToken p)]),
                 PutSelectStatement p)
      else
        let p = nextToken p in
        bind (if curTokenIs DISTINCT p
              then Some (Inr (stmt\<lparr>Distinct := True\<rparr>), nextToken p)
              else Some (Inr stmt, p)) (\<lambda>stmt p.
        bind (if curTokenIs TOP p
              then bind (Some (parseTopClause lib p)) (\<lambda>topClause p.
                     Some (Inr (stmt\<lparr>Top := Some topClause\<rparr>), p))
              else Some (Inr stmt, p)) (\<lambda>stmt p.
        bind (parseSelectList lib n p) (\<lambda>columns p.
        let stmt = stmt\<lparr>Columns := columns\<rparr> in
        bind (if curTokenIs FROM p
              then bind (parseFromClause n p) (\<lambda>fromClause p.
                     Some (Inr (stmt\<lparr>From := Some fromClause\<rparr>), p))
              else Some (Inr stmt, p)) (\<lambda>stmt p.
        bind (parseSelectStatement_joins lib n stmt p) (\<lambda>stmt p.
        bind (if curTokenIs WHERE p
              then bind (parseExpression lib n (nextToken p)) (\<lambda>whereExpr p.
                     Some (Inr (stmt\<lparr>Where := Some whereExpr\<rparr>), p))
              else Some (Inr stmt, p)) (\<lambda>stmt p.
        bind (if curTokenIs GROUP p
              then bind (parseGroupByClause lib n p) (\<lambda>groupBy p.
                     Some (Inr (stmt\<lparr>GroupBy := groupBy\<rparr>), p))
              else Some (Inr stmt, p)) (\<lambda>stmt p.
        bind (if curTokenIs HAVING p
              then bind (parseExpression lib n (nextToken p)) (\<lambda>havingExpr p.
                     Some (Inr (stmt\<lparr>Having := Some havingExpr\<rparr>), p))
              else Some (Inr stmt, p)) (\<lambda>stmt p.
        bind (if curTokenIs ORDER p
              then bind (parseOrderByClause lib n p) (\<lambda>orderBy p.
                     Some (Inr (stmt\<lparr>OrderBy := orderBy\<rparr>), p))
              else Some (Inr stmt, p)) (\<lambda>stmt p.
        Some (Inr stmt, p)))))))))))"

definition parseInsertStatement :: "Parser \<Rightarrow> Statement result" where
  "parseInsertStatement p = (Inl (Errorf ''INSERT statement parsing not implemented yet'' []), p)"

definition parseUpdateStatement :: "Parser \<Rightarrow> Statement result" where
  "parseUpdateStatement p = (Inl (Errorf ''UPDATE statement parsing not implemented yet'' []), p)"

definition parseDeleteStatement :: "Parser \<Rightarrow> Statement result" where
  "parseDeleteStatement p = (Inl (Errorf ''DELETE statement parsing not implemented yet'' []), p)"

definition ParseStatement :: "GoLib \<Rightarrow> nat \<Rightarrow> Parser \<Rightarrow> Statement result option" where
  "ParseStatement lib n p =
     (if Type (curToken p) = SELECT
      then bind (parseSelectStatement lib n p) (\<lambda>stmt p. Some (Inr (SelectStmt stmt), p))
      else if Type (curToken p) = INSERT then Some (parseInsertStatement p)
      else if Type (curToken p) = UPDATE then Some (parseUpdateStatement p)
      else if Type (curToken p) = DELETE then Some (parseDeleteStatement p)
      else Some (Inl (Errorf ''unsupported statement type: %s'' [Literal (curToken p)]), p))"

text \<open>
  \<^verbatim>\<open>ParseStatement\<close> declares the results \<^verbatim>\<open>(Statement, error)\<close>, and
  \<^verbatim>\<open>Statement\<close> is an interface. Four of its branches return the results of a
  function that declares a pointer (\<^verbatim>\<open>*SelectStatement\<close>, \<^verbatim>\<open>*InsertStatement\<close>,
  \<^verbatim>\<open>*UpdateStatement\<close>, \<^verbatim>\<open>*DeleteStatement\<close>): the interface value handed to the
  caller then holds that pointer, also when the pointer is nil, and such a value does
  not compare equal to \<^verbatim>\<open>nil\<close>. Only the default branch returns the nil interface.
  A \<open>StatementValue\<close> is such an interface value (\<open>SelectPointer None\<close> holds the
  nil \<^verbatim>\<open>*SelectStatement\<close>; the other three pointers are nil wherever the code
  returns them). \<open>ParseStatement\<close> above keeps the statement or the error;
  \<open>ParseStatement_pair\<close> is the same function with both results written out.
\<close>

datatype StatementValue =
  NilInterface | SelectPointer "SelectStatement option"
  | InsertPointer | UpdatePointer | DeletePointer

definition returned :: "('a option \<Rightarrow> StatementValue) \<Rightarrow> 'a result \<Rightarrow> (StatementValue \<times> error option) \<times> Parser" where
  "returned pointer x = (case x of
       (Inl e, p) \<Rightarrow> ((pointer None, Some e), p)
     | (Inr v, p) \<Rightarrow> ((pointer (Some v), None), p))"

definition ParseStatement_pair :: "GoLib \<Rightarrow> nat \<Rightarrow> Parser \<Rightarrow> ((StatementValue \<times> error option) \<times> Parser) option" where
  "ParseStatement_pair lib n p =
     (if Type (curToken p) = SELECT
      then map_option (returned SelectPointer) (parseSelectStatement lib n p)
      else if Type (curToken p) = INSERT
      then Some (returned (\<lambda>v. InsertPointer) (parseInsertStatement p))
      else if Type (curToken p) = UPDATE
      then Some (returned (\<lambda>v. UpdatePointer) (parseUpdateStatement p))
      else if Type (curToken p) = DELETE
      then Some (returned (\<lambda>v. DeletePointer) (parseDeleteStatement p))
      else Some ((NilInterface,
                  Some (Errorf ''unsupported statement type: %s'' [Literal (curToken p)])), p))"

section \<open>An instance of the library functions, and tokens for examples\<close>

text \<open>
  \<open>exampleLib\<close> serves to run the parser on concrete inputs. It agrees with Go's
  library on what the examples contain (plain decimal numerals without a leading zero,
  ASCII letters) and is not meant to describe it elsewhere.
\<close>

fun decimal :: "string \<Rightarrow> int \<Rightarrow> int option" where
  "decimal [] acc = Some acc"
| "decimal (c # cs) acc =
     (let k = (of_char c :: int) in
      if 48 \<le> k \<and> k \<le> 57 then decimal cs (10 * acc + (k - 48)) else None)"

definition plainDecimal :: "string \<Rightarrow> int option" where
  "plainDecimal s =
     (if s = [] \<or> (hd s = CHR ''0'' \<and> 1 < length s) then None
      else case decimal s 0 of
          None \<Rightarrow> None
        | Some v \<Rightarrow> if v < 9223372036854775808 then Some v else None)"

definition asciiUpper :: "string \<Rightarrow> string" where
  "asciiUpper s = map (\<lambda>c. let k = (of_char c :: nat) in
     if 97 \<le> k \<and> k \<le> 122 then char_of (k - 32) else c) s"

definition exampleLib :: GoLib where
  "exampleLib = \<lparr>Atoi = plainDecimal, ParseInt = plainDecimal,
     ParseFloatOk = (\<lambda>s. False), ToUpper = asciiUpper\<rparr>"

text \<open>A token of the given kind and text, on line 1 at the given column.\<close>

definition tok :: "TokenType \<Rightarrow> string \<Rightarrow> int \<Rightarrow> Token" where
  "tok t s c = \<lparr>Type = t, Literal = s, Line = 1, Column = c\<rparr>"

text \<open>
  What a caller of a parsing function can observe afterwards: the returned value or
  error, the accumulated list \<^verbatim>\<open>p.Errors()\<close>, and the calls made to the pools.
\<close>

definition report :: "'a result option \<Rightarrow> ((error + 'a) \<times> ErrorEntry list \<times> PoolEvent list) option" where
  "report m = (case m of None \<Rightarrow> None | Some (r, p) \<Rightarrow> Some (r, errors p, pool p))"

text \<open>\<^verbatim>\<open>SELECT a FROM t INNER JOIN u ON a = b\<close>\<close>

definition innerJoinQuery :: "Token list" where
  "innerJoinQuery =
    [tok SELECT ''SELECT'' 1, tok IDENT ''a'' 8, tok FROM ''FROM'' 10, tok IDENT ''t'' 15,
     tok INNER ''INNER'' 17, tok JOIN ''JOIN'' 23, tok IDENT ''u'' 28, tok ON ''ON'' 30,
     tok IDENT ''a'' 33, tok ASSIGN ''='' 35, tok IDENT ''b'' 37, tok EOF [] 38]"

text \<open>\<^verbatim>\<open>SELECT a FROM t JOIN u ON a = b\<close>\<close>

definition bareJoinQuery :: "Token list" where
  "bareJoinQuery =
    [tok SELECT ''SELECT'' 1, tok IDENT ''a'' 8, tok FROM ''FROM'' 10, tok IDENT ''t'' 15,
     tok JOIN ''JOIN'' 17, tok IDENT ''u'' 22, tok ON ''ON'' 24, tok IDENT ''a'' 27,
     tok ASSIGN ''='' 29, tok IDENT ''b'' 31, tok EOF [] 32]"

text \<open>\<^verbatim>\<open>SELECT a FROM t1, t2 WHERE a > 5 ORDER BY a DESC\<close>\<close>

definition orderByQuery :: "Token list" where
  "orderByQuery =
    [tok SELECT ''SELECT'' 1, tok IDENT ''a'' 8, tok FROM ''FROM'' 10, tok IDENT ''t1'' 15,
     tok COMMA '','' 17, tok IDENT ''t2'' 19, tok WHERE ''WHERE'' 22, tok IDENT ''a'' 28,
     tok GT ''>'' 30, tok NUMBER ''5'' 32, tok ORDER ''ORDER'' 34, tok BY ''BY'' 40,
     tok IDENT ''a'' 43, tok IDENT ''DESC'' 45, tok EOF [] 49]"

text \<open>\<^verbatim>\<open>SELECT (a) FROM t\<close>\<close>

definition groupedQuery :: "Token list" where
  "groupedQuery =
    [tok SELECT ''SELECT'' 1, tok LPAREN ''('' 8, tok IDENT ''a'' 9, tok RPAREN '')'' 10,
     tok FROM ''FROM'' 12, tok IDENT ''t'' 17, tok EOF [] 18]"

text \<open>\<^verbatim>\<open>SELECT (a) + b FROM t\<close>\<close>

definition groupedChainQuery :: "Token list" where
  "groupedChainQuery =
    [tok SELECT ''SELECT'' 1, tok LPAREN ''('' 8, tok IDENT ''a'' 9, tok RPAREN '')'' 10,
     tok PLUS ''+'' 12, tok IDENT ''b'' 14, tok FROM ''FROM'' 16, tok IDENT ''t'' 21,
     tok EOF [] 22]"

text \<open>\<^verbatim>\<open>SELECT a + b * c\<close>\<close>

definition chainQuery :: "Token list" where
  "chainQuery =
    [tok SELECT ''SELECT'' 1, tok IDENT ''a'' 8, tok PLUS ''+'' 10, tok IDENT ''b'' 12,
     tok ASTERISK ''*'' 14, tok IDENT ''c'' 16, tok EOF [] 17]"

text \<open>\<^verbatim>\<open>SELECT FROM t\<close>\<close>

definition noListQuery :: "Token list" where
  "noListQuery =
    [tok SELECT ''SELECT'' 1, tok FROM ''FROM'' 8, tok IDENT ''t'' 13, tok EOF [] 14]"

text \<open>\<^verbatim>\<open>INSERT INTO t VALUES (1)\<close>\<close>

definition insertQuery :: "Token list" where
  "insertQuery =
    [tok INSERT ''INSERT'' 1, tok IDENT ''INTO'' 8, tok IDENT ''t'' 13,
     tok IDENT ''VALUES'' 15, tok LPAREN ''('' 22, tok NUMBER ''1'' 23,
     tok RPAREN '')'' 24, tok EOF [] 25]"

text \<open>\<^verbatim>\<open>CREATE TABLE t\<close>\<close>

definition createQuery :: "Token list" where
  "createQuery =
    [tok CREATE ''CREATE'' 1, tok IDENT ''TABLE'' 8, tok IDENT ''t'' 14, tok EOF [] 15]"

text \<open>\<^verbatim>\<open>SELECT TOP x FROM t\<close>\<close>

definition topQuery :: "Token list" where
  "topQuery =
    [tok SELECT ''SELECT'' 1, tok TOP ''TOP'' 8, tok IDENT ''x'' 12, tok FROM ''FROM'' 14,
     tok IDENT ''t'' 19, tok EOF [] 20]"

text \<open>\<^verbatim>\<open>SELECT a GROUP BY b\<close>\<close>

definition groupByQuery :: "Token list" where
  "groupByQuery =
    [tok SELECT ''SELECT'' 1, tok IDENT ''a'' 8, tok GROUP ''GROUP'' 10, tok BY ''BY'' 16,
     tok IDENT ''b'' 19, tok EOF [] 20]"

text \<open>\<^verbatim>\<open>SELECT a * b\<close>\<close>

definition mulQuery :: "Token list" where
  "mulQuery =
    [tok SELECT ''SELECT'' 1, tok IDENT ''a'' 8, tok ASTERISK ''*'' 10, tok IDENT ''b'' 12,
     tok EOF [] 13]"

section \<open>Notions used in the proofs\<close>

subsection \<open>The accumulated errors of a parse without cancellation\<close>

text \<open>
  \<open>expectations\<close> lists the calls of \<^verbatim>\<open>expectPeek\<close> in the parser: the kind each
  one expects, with the error that its caller returns when the lookahead token is of
  another kind.

  \<open>track p err q\<close>: the parser \<open>q\<close> still has a context that is never done.
  Compared with \<open>p\<close>, its accumulated list is unchanged when \<open>err\<close> is no error, or
  an error that is not one of a failed \<^verbatim>\<open>expectPeek\<close>. When \<open>err\<close> is such an error,
  the list is longer by one syntax error, which holds the expected kind that goes with
  \<open>err\<close>, and the kind, line and column of the lookahead token of \<open>q\<close>, whose kind
  is not the expected one. \<open>tracks p m\<close> says so of the outcome \<open>m\<close> of a parsing
  function, \<open>err\<close> being the error it returned, if any.
\<close>

definition expectations :: "(TokenType \<times> error) list" where
  "expectations =
    [(JOIN, Errorf ''expected JOIN after INNER'' []),
     (JOIN, Errorf ''expected JOIN after LEFT'' []),
     (JOIN, Errorf ''expected JOIN after RIGHT'' []),
     (JOIN, Errorf ''expected JOIN after FULL'' []),
     (BY, Errorf ''expected BY after GROUP'' []),
     (BY, Errorf ''expected BY after ORDER'' []),
     (RPAREN, Errorf ''expected ')' to close grouped expression'' [])]"

definition errorOf :: "error + 'a \<Rightarrow> error option" where
  "errorOf r = (case r of Inl e \<Rightarrow> Some e | Inr x \<Rightarrow> None)"

definition track :: "Parser \<Rightarrow> error option \<Rightarrow> Parser \<Rightarrow> bool" where
  "track p err q \<longleftrightarrow> ctx q = None \<and>
     (case err of
        None \<Rightarrow> errors q = errors p
      | Some e \<Rightarrow>
          if e \<in> snd ` set expectations
          then \<exists>t. (t, e) \<in> set expectations \<and> Type (peekToken q) \<noteq> t \<and>
                 errors q = errors p @ [SyntaxError t (Type (peekToken q))
                                         (Line (peekToken q)) (Column (peekToken q))]
          else errors q = errors p)"

definition tracks :: "Parser \<Rightarrow> 'a result option \<Rightarrow> bool" where
  "tracks p m = (case m of None \<Rightarrow> True | Some (r, q) \<Rightarrow> track p (errorOf r) q)"

subsection \<open>Tokens pending\<close>

text \<open>
  \<open>pending p\<close> counts the tokens other than \<open>EOF\<close> that the parser has not yet
  passed: the current token, the token after it and those the tokenizer still holds.
  \<open>returns k m\<close>: the outcome \<open>m\<close> is a value or an error (the fuel sufficed), in a
  parser whose context is never done and which has at most \<open>k\<close> tokens pending.
\<close>

definition pending :: "Parser \<Rightarrow> nat" where
  "pending p = length (filter (\<lambda>t. Type t \<noteq> EOF) (curToken p # peekToken p # l p))"

definition returns :: "nat \<Rightarrow> 'a result option \<Rightarrow> bool" where
  "returns k m \<longleftrightarrow> (\<exists>r q. m = Some (r, q) \<and> ctx q = None \<and> pending q \<le> k)"

subsection \<open>Tokens ahead, primaries and chains\<close>

text \<open>
  \<open>tokenAt p i\<close> is the \<open>i\<close>-th token the parser will see, the current token being
  number 0; \<open>reads p ts\<close> says that the context is never done and that the tokens
  \<open>ts\<close> come next.

  The grammar of the specification, for the primaries that are neither parenthesised
  nor function calls: \<open>primary lib ts\<close> is the expression that the tokens \<open>ts\<close>
  denote (an identifier, a qualified identifier, a qualified star, a number that the
  library accepts, a string, a star). A link is an infix operator followed by such a
  primary, and \<open>leftNested\<close> is the left-nested tree of a primary and a list of links.
\<close>

definition tokenAt :: "Parser \<Rightarrow> nat \<Rightarrow> Token" where
  "tokenAt p i = (case i of 0 \<Rightarrow> curToken p | Suc 0 \<Rightarrow> peekToken p
     | Suc (Suc j) \<Rightarrow> if j < length (l p) then l p ! j else eofToken)"

definition reads :: "Parser \<Rightarrow> Token list \<Rightarrow> bool" where
  "reads p ts \<longleftrightarrow> ctx p = None \<and> (\<forall>i < length ts. tokenAt p i = ts ! i)"

fun primary :: "GoLib \<Rightarrow> Token list \<Rightarrow> Expression option" where
  "primary lib [t] =
     (if Type t = IDENT then Some (ColumnReference [] (Literal t))
      else if Type t = NUMBER then
        (if CHR ''.'' \<in> set (Literal t)
         then (if ParseFloatOk lib (Literal t) then Some (LiteralE (FloatValue (Literal t)))
               else None)
         else map_option (\<lambda>v. LiteralE (IntValue v)) (ParseInt lib (Literal t)))
      else if Type t = STRING then Some (LiteralE (StringValue (Literal t)))
      else if Type t = ASTERISK then Some (StarExpression [])
      else None)"
| "primary lib [t, d, c] =
     (if Type t = IDENT \<and> Type d = DOT \<and> Type c = IDENT
      then Some (ColumnReference (Literal t) (Literal c))
      else if Type t = IDENT \<and> Type d = DOT \<and> Type c = ASTERISK
      then Some (StarExpression (Literal t))
      else None)"
| "primary lib ts = None"

definition link :: "GoLib \<Rightarrow> Token \<times> Token list \<Rightarrow> bool" where
  "link lib x \<longleftrightarrow> isInfixOperator (Type (fst x)) \<and> primary lib (snd x) \<noteq> None"

definition linkTokens :: "(Token \<times> Token list) list \<Rightarrow> Token list" where
  "linkTokens links = concat (map (\<lambda>x. fst x # snd x) links)"

definition leftNested :: "GoLib \<Rightarrow> Expression \<Rightarrow> (Token \<times> Token list) list \<Rightarrow> Expression" where
  "leftNested lib e links =
     foldl (\<lambda>left x. BinaryExpression left (Literal (fst x)) (the (primary lib (snd x)))) e links"

subsection \<open>The statement node and its pool\<close>

text \<open>
  \<open>keeps p q\<close>: the parser \<open>q\<close> has the pool trace of \<open>p\<close> followed by calls
  none of which hands a statement node back; \<open>keepsAll p m\<close> says so of the outcome
  \<open>m\<close> of a parsing function.
\<close>

definition keeps :: "Parser \<Rightarrow> Parser \<Rightarrow> bool" where
  "keeps p q \<longleftrightarrow> (\<exists>evs. pool q = pool p @ evs \<and> Put SelectStatementNode \<notin> set evs)"

definition keepsAll :: "Parser \<Rightarrow> 'a result option \<Rightarrow> bool" where
  "keepsAll p m = (case m of None \<Rightarrow> True | Some (r, q) \<Rightarrow> keeps p q)"

subsection \<open>Outcomes with more fuel\<close>

text \<open>
  \<open>le_res m m'\<close>: the outcome \<open>m'\<close> agrees with \<open>m\<close> wherever \<open>m\<close> is an outcome
  at all (\<open>m\<close> did not run out of fuel).
\<close>

definition le_res :: "'a option \<Rightarrow> 'a option \<Rightarrow> bool" where
  "le_res m m' \<longleftrightarrow> m = None \<or> m = m'"

section \<open>Fuel\<close>

text \<open>
  More fuel never changes an outcome: a parsing function that returns with fuel \<open>n\<close>
  returns the same value, error and parser with any fuel \<open>m \<ge> n\<close>.
\<close>

lemma le_res_simps [simp]: "le_res m m" "le_res None m"
  by (simp_all add: le_res_def)

lemma le_res_bind [intro!]:
  "le_res m m' \<Longrightarrow> (\<And>x q. le_res (f x q) (f' x q)) \<Longrightarrow> le_res (bind m f) (bind m' f')"
  by (auto simp: le_res_def bind_def split: option.splits sum.splits prod.splits)

lemma le_res_if [intro!]:
  "(c \<Longrightarrow> le_res a a') \<Longrightarrow> (\<not> c \<Longrightarrow> le_res b b') \<Longrightarrow>
     le_res (if c then a else b) (if c then a' else b')"
  by simp

lemma le_res_onError [intro!]:
  "le_res m m' \<Longrightarrow> le_res (onError h m) (onError h m')"
  by (auto simp: le_res_def onError_def)

lemma le_res_case_prod [intro!]:
  "(\<And>a b. le_res (f a b) (f' a b)) \<Longrightarrow> le_res (case_prod f x) (case_prod f' x)"
  by (cases x) simp

lemma le_res_case_bool [intro!]:
  "le_res a a' \<Longrightarrow> le_res b b' \<Longrightarrow> le_res (case_bool a b x) (case_bool a' b' x)"
  by (cases x) simp_all

lemma fuel_expressions:
  "\<forall>m\<ge>n.
   (\<forall>p. le_res (parseExpression lib n p) (parseExpression lib m p)) \<and>
   (\<forall>p. le_res (parseInfixExpression lib n p) (parseInfixExpression lib m p)) \<and>
   (\<forall>p left. le_res (parseInfixExpression_loop lib n left p)
      (parseInfixExpression_loop lib m left p)) \<and>
   (\<forall>p. le_res (parsePrimaryExpression lib n p) (parsePrimaryExpression lib m p)) \<and>
   (\<forall>p. le_res (parseIdentifierExpression lib n p) (parseIdentifierExpression lib m p)) \<and>
   (\<forall>p name. le_res (parseFunctionCall lib n name p) (parseFunctionCall lib m name p)) \<and>
   (\<forall>p args. le_res (parseFunctionCall_loop lib n args p)
      (parseFunctionCall_loop lib m args p)) \<and>
   (\<forall>p. le_res (parseGroupedExpression lib n p) (parseGroupedExpression lib m p))"
proof (induction n)
  case 0
  show ?case by simp
next
  case (Suc n)
  show ?case
  proof (intro allI impI)
    fix m assume "Suc n \<le> m"
    then obtain k where m: "m = Suc k" and "n \<le> k"
      by (cases m) auto
    with Suc.IH have
      IH: "le_res (parseExpression lib n p) (parseExpression lib k p)"
        "le_res (parseInfixExpression lib n p) (parseInfixExpression lib k p)"
        "le_res (parseInfixExpression_loop lib n left p) (parseInfixExpression_loop lib k left p)"
        "le_res (parsePrimaryExpression lib n p) (parsePrimaryExpression lib k p)"
        "le_res (parseIdentifierExpression lib n p) (parseIdentifierExpression lib k p)"
        "le_res (parseFunctionCall lib n name p) (parseFunctionCall lib k name p)"
        "le_res (parseFunctionCall_loop lib n args p) (parseFunctionCall_loop lib k args p)"
        "le_res (parseGroupedExpression lib n p) (parseGroupedExpression lib k p)"
      for p left name args
      by blast+
    show "(\<forall>p. le_res (parseExpression lib (Suc n) p) (parseExpression lib m p)) \<and>
      (\<forall>p. le_res (parseInfixExpression lib (Suc n) p) (parseInfixExpression lib m p)) \<and>
      (\<forall>p left. le_res (parseInfixExpression_loop lib (Suc n) left p)
         (parseInfixExpression_loop lib m left p)) \<and>
      (\<forall>p. le_res (parsePrimaryExpression lib (Suc n) p) (parsePrimaryExpression lib m p)) \<and>
      (\<forall>p. le_res (parseIdentifierExpression lib (Suc n) p)
         (parseIdentifierExpression lib m p)) \<and>
      (\<forall>p name. le_res (parseFunctionCall lib (Suc n) name p)
         (parseFunctionCall lib m name p)) \<and>
      (\<forall>p args. le_res (parseFunctionCall_loop lib (Suc n) args p)
         (parseFunctionCall_loop lib m args p)) \<and>
      (\<forall>p. le_res (parseGroupedExpression lib (Suc n) p) (parseGroupedExpression lib m p))"
      unfolding m
      apply (simp only: parseExpression.simps parseInfixExpression.simps
          parseInfixExpression_loop.simps parsePrimaryExpression.simps
          parseIdentifierExpression.simps parseFunctionCall.simps
          parseFunctionCall_loop.simps parseGroupedExpression.simps Let_def)
      apply (intro conjI allI le_res_bind le_res_if le_res_case_prod le_res_case_bool IH
          le_res_simps)
      done
  qed
qed

lemma fuel_parseExpression:
  "n \<le> m \<Longrightarrow> le_res (parseExpression lib n p) (parseExpression lib m p)"
  using fuel_expressions [of n lib] by blast

lemma fuel_parseSelectList_loop:
  "n \<le> m \<Longrightarrow> le_res (parseSelectList_loop lib n columns p) (parseSelectList_loop lib m columns p)"
proof (induction n arbitrary: m columns p)
  case 0
  show ?case by simp
next
  case (Suc n)
  then obtain k where m: "m = Suc k" and k: "n \<le> k"
    by (cases m) auto
  show ?case
    unfolding m
    apply (simp only: parseSelectList_loop.simps Let_def)
    apply (intro le_res_bind le_res_if le_res_case_prod le_res_case_bool le_res_onError
        Suc.IH [OF k] fuel_parseExpression [OF k] le_res_simps)
    done
qed

lemma fuel_parseSelectList:
  "n \<le> m \<Longrightarrow> le_res (parseSelectList lib n p) (parseSelectList lib m p)"
  unfolding parseSelectList_def Let_def
  by (intro le_res_bind le_res_if le_res_case_prod le_res_case_bool le_res_onError
      fuel_parseExpression fuel_parseSelectList_loop le_res_simps; assumption)

lemma fuel_parseFromClause_loop:
  "n \<le> m \<Longrightarrow> le_res (parseFromClause_loop n fromClause p) (parseFromClause_loop m fromClause p)"
proof (induction n arbitrary: m fromClause p)
  case 0
  show ?case by simp
next
  case (Suc n)
  then obtain k where m: "m = Suc k" and k: "n \<le> k"
    by (cases m) auto
  show ?case
    unfolding m
    apply (simp only: parseFromClause_loop.simps Let_def)
    apply (intro le_res_bind le_res_if le_res_case_prod le_res_case_bool le_res_onError
        Suc.IH [OF k]  le_res_simps)
    done
qed

lemma fuel_parseFromClause:
  "n \<le> m \<Longrightarrow> le_res (parseFromClause n p) (parseFromClause m p)"
  unfolding parseFromClause_def Let_def
  by (intro le_res_bind le_res_if le_res_case_prod le_res_case_bool le_res_onError
      fuel_parseFromClause_loop le_res_simps; assumption)

lemma fuel_parseJoinClause:
  "n \<le> m \<Longrightarrow> le_res (parseJoinClause lib n p) (parseJoinClause lib m p)"
  unfolding parseJoinClause_def Let_def
  by (intro le_res_bind le_res_if le_res_case_prod le_res_case_bool le_res_onError
      fuel_parseExpression le_res_simps; assumption)

lemma fuel_parseSelectStatement_joins:
  "n \<le> m \<Longrightarrow> le_res (parseSelectStatement_joins lib n stmt p) (parseSelectStatement_joins lib m stmt p)"
proof (induction n arbitrary: m stmt p)
  case 0
  show ?case by simp
next
  case (Suc n)
  then obtain k where m: "m = Suc k" and k: "n \<le> k"
    by (cases m) auto
  show ?case
    unfolding m
    apply (simp only: parseSelectStatement_joins.simps Let_def)
    apply (intro le_res_bind le_res_if le_res_case_prod le_res_case_bool le_res_onError
        Suc.IH [OF k] fuel_parseJoinClause [OF k] le_res_simps)
    done
qed

lemma fuel_parseGroupByClause_loop:
  "n \<le> m \<Longrightarrow> le_res (parseGroupByClause_loop lib n expressions p) (parseGroupByClause_loop lib m expressions p)"
proof (induction n arbitrary: m expressions p)
  case 0
  show ?case by simp
next
  case (Suc n)
  then obtain k where m: "m = Suc k" and k: "n \<le> k"
    by (cases m) auto
  show ?case
    unfolding m
    apply (simp only: parseGroupByClause_loop.simps Let_def)
    apply (intro le_res_bind le_res_if le_res_case_prod le_res_case_bool le_res_onError
        Suc.IH [OF k] fuel_parseExpression [OF k] le_res_simps)
    done
qed

lemma fuel_parseGroupByClause:
  "n \<le> m \<Longrightarrow> le_res (parseGroupByClause lib n p) (parseGroupByClause lib m p)"
  unfolding parseGroupByClause_def Let_def
  by (intro le_res_bind le_res_if le_res_case_prod le_res_case_bool le_res_onError
      fuel_parseExpression fuel_parseGroupByClause_loop le_res_simps; assumption)

lemma fuel_parseOrderByItem:
  "n \<le> m \<Longrightarrow> le_res (parseOrderByItem lib n p) (parseOrderByItem lib m p)"
  unfolding parseOrderByItem_def Let_def
  by (intro le_res_bind le_res_if le_res_case_prod le_res_case_bool le_res_onError
      fuel_parseExpression le_res_simps; assumption)

lemma fuel_parseOrderByClause_loop:
  "n \<le> m \<Longrightarrow> le_res (parseOrderByClause_loop lib n clauses p) (parseOrderByClause_loop lib m clauses p)"
proof (induction n arbitrary: m clauses p)
  case 0
  show ?case by simp
next
  case (Suc n)
  then obtain k where m: "m = Suc k" and k: "n \<le> k"
    by (cases m) auto
  show ?case
    unfolding m
    apply (simp only: parseOrderByClause_loop.simps Let_def)
    apply (intro le_res_bind le_res_if le_res_case_prod le_res_case_bool le_res_onError
        Suc.IH [OF k] fuel_parseOrderByItem [OF k] le_res_simps)
    done
qed

lemma fuel_parseOrderByClause:
  "n \<le> m \<Longrightarrow> le_res (parseOrderByClause lib n p) (parseOrderByClause lib m p)"
  unfolding parseOrderByClause_def Let_def
  by (intro le_res_bind le_res_if le_res_case_prod le_res_case_bool le_res_onError
      fuel_parseOrderByItem fuel_parseOrderByClause_loop le_res_simps; assumption)

lemma fuel_parseSelectStatement:
  "n \<le> m \<Longrightarrow> le_res (parseSelectStatement lib n p) (parseSelectStatement lib m p)"
  unfolding parseSelectStatement_def Let_def
  by (intro le_res_bind le_res_if le_res_case_prod le_res_case_bool le_res_onError
      fuel_parseExpression fuel_parseSelectList fuel_parseFromClause fuel_parseSelectStatement_joins fuel_parseGroupByClause fuel_parseOrderByClause le_res_simps; assumption)

lemma fuel_ParseStatement:
  "n \<le> m \<Longrightarrow> le_res (ParseStatement lib n p) (ParseStatement lib m p)"
  unfolding ParseStatement_def Let_def
  by (intro le_res_bind le_res_if le_res_case_prod le_res_case_bool le_res_onError
      fuel_parseSelectStatement le_res_simps; assumption)

lemma ParseStatement_more_fuel:
  "n \<le> m \<Longrightarrow> ParseStatement lib n p = Some r \<Longrightarrow> ParseStatement lib m p = Some r"
  using fuel_ParseStatement [of n m lib p] by (simp add: le_res_def)


lemma report_more_fuel:
  "report (ParseStatement lib n p) = Some x \<Longrightarrow> n \<le> m \<Longrightarrow>
     report (ParseStatement lib m p) = Some x"
  using fuel_ParseStatement [of n m lib p] by (auto simp: le_res_def report_def)

section \<open>The tokens ahead\<close>

lemma tokenAt_nextToken: "ctx p = None \<Longrightarrow> tokenAt (nextToken p) i = tokenAt p (Suc i)"
  by (cases "l p")
    (auto simp: tokenAt_def nextToken_def advance_def NextToken_def split: nat.splits)

lemma reads_Cons:
  "reads p (t # ts) \<Longrightarrow> curToken p = t \<and> reads (nextToken p) ts"
proof -
  assume r: "reads p (t # ts)"
  then have c: "ctx p = None" and a: "\<And>i. i < Suc (length ts) \<Longrightarrow> tokenAt p i = (t # ts) ! i"
    by (auto simp: reads_def)
  from a [of 0] have "curToken p = t"
    by (simp add: tokenAt_def)
  moreover have "tokenAt (nextToken p) i = ts ! i" if "i < length ts" for i
    using a [of "Suc i"] that c by (simp add: tokenAt_nextToken)
  moreover from c have "ctx (nextToken p) = None"
    by (simp add: nextToken_def advance_def split: prod.splits)
  ultimately show ?thesis
    by (simp add: reads_def)
qed

lemma tokenAt_GetNode [simp]: "tokenAt (GetNode k p) i = tokenAt p i"
  by (simp add: tokenAt_def GetNode_def split: nat.splits)

lemma reads_GetNode [simp]: "reads (GetNode k p) ts = reads p ts"
proof -
  have "ctx (GetNode k p) = ctx p"
    by (simp add: GetNode_def)
  then show ?thesis
    by (simp add: reads_def)
qed

lemma reads_cur: "reads p (t # ts) \<Longrightarrow> curToken p = t"
  by (simp add: reads_Cons)

lemma reads_next: "reads p (t # ts) \<Longrightarrow> reads (nextToken p) ts"
  by (simp add: reads_Cons)

lemma reads_peek: "reads p (a # b # ts) \<Longrightarrow> peekToken p = b"
proof -
  assume "reads p (a # b # ts)"
  then have "tokenAt p (Suc 0) = (a # b # ts) ! Suc 0"
    by (simp add: reads_def)
  then show ?thesis
    by (simp add: tokenAt_def)
qed

lemma reads_New: "reads (New input) input"
proof -
  let ?init = "\<lparr>l = input, curToken = zeroToken, peekToken = zeroToken, errors = [],
    tokenCount = 0, ctx = None, pool = []\<rparr>"
  have c: "ctx ?init = None" "ctx (nextToken ?init) = None"
    by (simp_all add: nextToken_def advance_def split: prod.splits)
  have "tokenAt (New input) i = tokenAt ?init (Suc (Suc i))" for i
    unfolding New_def NewWithContext_def
    by (simp only: tokenAt_nextToken c)
  moreover have "ctx (New input) = None"
    unfolding New_def NewWithContext_def
    by (simp add: nextToken_def advance_def split: prod.splits)
  ultimately show ?thesis
    by (simp add: reads_def tokenAt_def)
qed


section \<open>Statement dispatch\<close>

text \<open>
  Claim C9. When the current token is not \<open>SELECT\<close>, \<open>INSERT\<close>, \<open>UPDATE\<close> or
  \<open>DELETE\<close>, \<open>ParseStatement\<close> returns the error "unsupported statement type"
  with the token's text; when it is \<open>INSERT\<close>, \<open>UPDATE\<close> or \<open>DELETE\<close>, it
  returns the error "... statement parsing not implemented yet". In each case it
  returns (needing no fuel) and leaves the parser as it was.
\<close>

theorem ParseStatement_other_statements:
  "(Type (curToken p) \<notin> {SELECT, INSERT, UPDATE, DELETE} \<longrightarrow>
      ParseStatement lib n p =
        Some (Inl (Errorf ''unsupported statement type: %s'' [Literal (curToken p)]), p)) \<and>
   (Type (curToken p) = INSERT \<longrightarrow>
      ParseStatement lib n p =
        Some (Inl (Errorf ''INSERT statement parsing not implemented yet'' []), p)) \<and>
   (Type (curToken p) = UPDATE \<longrightarrow>
      ParseStatement lib n p =
        Some (Inl (Errorf ''UPDATE statement parsing not implemented yet'' []), p)) \<and>
   (Type (curToken p) = DELETE \<longrightarrow>
      ParseStatement lib n p =
        Some (Inl (Errorf ''DELETE statement parsing not implemented yet'' []), p))"
  by (simp add: ParseStatement_def parseInsertStatement_def parseUpdateStatement_def
      parseDeleteStatement_def)

theorem ParseStatement_other_statements_witness:
  "ParseStatement exampleLib 0 (New insertQuery) =
     Some (Inl (Errorf ''INSERT statement parsing not implemented yet'' []), New insertQuery) \<and>
   ParseStatement exampleLib 0 (New createQuery) =
     Some (Inl (Errorf ''unsupported statement type: %s'' [''CREATE'']), New createQuery)"
proof -
  have i: "Type (curToken (New insertQuery)) = INSERT"
    by code_simp
  have c: "Type (curToken (New createQuery)) = CREATE"
    "Literal (curToken (New createQuery)) = ''CREATE''"
    by code_simp+
  show ?thesis
    using ParseStatement_other_statements [of "New insertQuery" exampleLib 0]
      ParseStatement_other_statements [of "New createQuery" exampleLib 0] i c
    by simp
qed

section \<open>Joins\<close>

text \<open>
  A join that starts with a type keyword is rejected whatever follows the keyword, and
  whatever the cancellation signal: \<open>joinKeyword\<close> either fails, or leaves \<open>JOIN\<close>
  (or, once the context is done, an unchanged token) as the current token, with
  which \<^verbatim>\<open>parseTableReference\<close> or the test for \<open>ON\<close> fails. A join clause that
  is accepted after a bare \<open>JOIN\<close> has the type \<open>INNER\<close>.
\<close>

lemma nextToken_cases:
  obtains (stopped) "ctx p = Some 0" "nextToken p = p\<lparr>errors := errors p @ [cancelled]\<rparr>"
  | (advanced) "ctx p \<noteq> Some 0" "curToken (nextToken p) = peekToken p"
proof (cases "ctx p")
  case None
  then show ?thesis
    using that(2) by (simp add: nextToken_def advance_def split: prod.splits)
next
  case (Some k)
  then show ?thesis
    using that by (cases k) (simp_all add: nextToken_def advance_def split: prod.splits)
qed

lemma nextToken_stays_done:
  "ctx p = Some 0 \<Longrightarrow> ctx (nextToken p) = Some 0 \<and> curToken (nextToken p) = curToken p"
  by (simp add: nextToken_def)

lemma parseTableReference_done:
  "ctx p = Some 0 \<Longrightarrow> parseTableReference p = (r, q) \<Longrightarrow> curToken q = curToken p"
  by (auto simp: parseTableReference_def Let_def curTokenIs_def nextToken_stays_done
      split: if_splits)

lemma table_then_on_fails:
  assumes "Type (curToken p) \<noteq> IDENT \<or> ctx p = Some 0"
  shows "\<exists>e q. bind (onError PutJoinClause (Some (parseTableReference p)))
      (\<lambda>table p. if \<not> curTokenIs ON p then Some (Inl (E p), PutJoinClause p) else F table p)
    = Some (Inl e, q)"
proof (cases "Type (curToken p) = IDENT")
  case False
  then show ?thesis
    by (simp add: parseTableReference_def curTokenIs_def onError_def bind_def)
next
  case True
  with assms have d: "ctx p = Some 0"
    by simp
  obtain r q where rq: "parseTableReference p = (r, q)"
    by (cases "parseTableReference p")
  with d True have "Type (curToken q) = IDENT"
    by (simp add: parseTableReference_done)
  with rq show ?thesis
    by (cases r) (simp_all add: onError_def bind_def curTokenIs_def)
qed

lemma joinKeyword_cases:
  obtains (err) e q where "joinKeyword kw jc p = (Inl e, q)"
  | (ok) q where "joinKeyword kw jc p = (Inr (jc\<lparr>JoinType := kw\<rparr>), q)"
      "Type (curToken q) \<noteq> IDENT \<or> ctx q = Some 0"
proof (cases "peekTokenIs JOIN (nextToken p)")
  case False
  then show ?thesis
    using err by (simp add: joinKeyword_def Let_def expectPeek_def)
next
  case True
  then have j: "joinKeyword kw jc p = (Inr (jc\<lparr>JoinType := kw\<rparr>), nextToken (nextToken p))"
    by (simp add: joinKeyword_def Let_def expectPeek_def)
  show ?thesis
  proof (cases "nextToken p" rule: nextToken_cases)
    case stopped
    then have "ctx (nextToken (nextToken p)) = Some 0"
      by (simp add: nextToken_stays_done)
    with j ok show ?thesis by blast
  next
    case advanced
    with True have "Type (curToken (nextToken (nextToken p))) \<noteq> IDENT"
      by (simp add: peekTokenIs_def)
    with j ok show ?thesis by blast
  qed
qed

lemma keyword_join_fails:
  "\<exists>e q. bind (Some (joinKeyword kw jc p)) (\<lambda>joinClause p.
      bind (onError PutJoinClause (Some (parseTableReference p))) (\<lambda>table p.
        if \<not> curTokenIs ON p then Some (Inl (E p), PutJoinClause p)
        else F joinClause table p)) = Some (Inl e, q)"
proof (cases kw jc p rule: joinKeyword_cases)
  case (err e q)
  then show ?thesis
    by (simp add: bind_def)
next
  case (ok q)
  from table_then_on_fails [OF ok(2)] ok(1) show ?thesis
    by (simp add: bind_def)
qed

lemma parseJoinClause_type_keyword:
  assumes "Type (curToken p) \<in> {INNER, LEFT, RIGHT, FULL}"
  shows "\<exists>e q. parseJoinClause lib n p = Some (Inl e, q)"
proof -
  have cur: "curTokenIs t (GetJoinClause p) = (Type (curToken p) = t)" for t
    by (simp add: curTokenIs_def GetNode_def)
  from assms consider "Type (curToken p) = INNER" | "Type (curToken p) = LEFT"
    | "Type (curToken p) = RIGHT" | "Type (curToken p) = FULL"
    by auto
  then show ?thesis
  proof cases
    case 1
    show ?thesis
      unfolding parseJoinClause_def Let_def
      by (simp only: cur 1 simp_thms if_True if_False TokenType.simps) (rule keyword_join_fails)
  next
    case 2
    show ?thesis
      unfolding parseJoinClause_def Let_def
      by (simp only: cur 2 simp_thms if_True if_False TokenType.simps) (rule keyword_join_fails)
  next
    case 3
    show ?thesis
      unfolding parseJoinClause_def Let_def
      by (simp only: cur 3 simp_thms if_True if_False TokenType.simps) (rule keyword_join_fails)
  next
    case 4
    show ?thesis
      unfolding parseJoinClause_def Let_def
      by (simp only: cur 4 simp_thms if_True if_False TokenType.simps) (rule keyword_join_fails)
  qed
qed

lemma parseJoinClause_bare:
  "Type (curToken p) = JOIN \<Longrightarrow> parseJoinClause lib n p = Some (Inr joinClause, q) \<Longrightarrow>
     JoinType joinClause = ''INNER''"
  by (auto simp: parseJoinClause_def Let_def curTokenIs_def GetNode_def bind_def onError_def
      split: option.splits sum.splits prod.splits if_splits)


text \<open>
  Claim C1. The claim asks that a join written with a type keyword is accepted. On
  \<^verbatim>\<open>SELECT a FROM t INNER JOIN u ON a = b\<close> the parser instead returns the error
  "expected JOIN after INNER", after recording a syntax error at the table name
  (line 1, column 28) and handing the join node back to its pool:
  \<^verbatim>\<open>parseJoinClause\<close> advances onto \<open>JOIN\<close> and then expects \<open>JOIN\<close> once more
  as the following token. This is the outcome for every fuel from 20 on and every
  choice of the library functions.
\<close>

theorem typed_join_rejected:
  "report (ParseStatement lib (20 + k) (New innerJoinQuery)) =
     Some (Inl (Errorf ''expected JOIN after INNER'' []),
           [SyntaxError JOIN IDENT 1 28],
           [Get SelectStatementNode, Get ColumnReferenceNode, Get JoinClauseNode,
            Put JoinClauseNode])"
proof -
  have "report (ParseStatement lib 20 (New innerJoinQuery)) =
       Some (Inl (Errorf ''expected JOIN after INNER'' []),
             [SyntaxError JOIN IDENT 1 28],
             [Get SelectStatementNode, Get ColumnReferenceNode, Get JoinClauseNode,
              Put JoinClauseNode])"
    by code_simp
  then show ?thesis
    by (rule report_more_fuel) simp
qed

section \<open>ORDER BY\<close>

text \<open>
  An \<open>ORDER\<close> followed by any token and then by a token other than \<open>BY\<close> is
  rejected, when the context is never done: after \<^verbatim>\<open>nextToken\<close> the second token
  is current, and \<^verbatim>\<open>expectPeek\<close> looks for \<open>BY\<close> in the third. In particular
  \<open>ORDER BY\<close> followed by an item is rejected.
\<close>

lemma order_by_fails:
  assumes "reads p (t # b # x # us)" and "Type t = ORDER" and "Type x \<noteq> BY"
  shows "\<exists>q. parseOrderByClause lib n p = Some (Inl (Errorf ''expected BY after ORDER'' []), q)"
proof -
  from assms(1) have c: "curToken p = t" and r: "reads (nextToken p) (b # x # us)"
    by (simp_all add: reads_Cons)
  from r have "peekToken (nextToken p) = x"
    by (rule reads_peek)
  with assms(3) have "expectPeek BY (nextToken p) = (False, peekError BY (nextToken p))"
    by (simp add: expectPeek_def peekTokenIs_def)
  with c assms(2) show ?thesis
    by (simp add: parseOrderByClause_def curTokenIs_def Let_def)
qed


text \<open>
  Claim C2. The claim asks that \<^verbatim>\<open>SELECT a FROM t1, t2 WHERE a > 5 ORDER BY a DESC\<close>
  yields two tables, a condition and one ordering item with direction \<open>DESC\<close>. The
  parser returns the error "expected BY after ORDER" instead, with a syntax error
  recorded at the item (line 1, column 43): \<^verbatim>\<open>parseOrderByClause\<close> advances onto
  \<open>BY\<close> and then expects \<open>BY\<close> once more as the following token. This is the
  outcome for every fuel from 20 on.
\<close>

theorem order_by_rejected:
  "report (ParseStatement exampleLib (20 + k) (New orderByQuery)) =
     Some (Inl (Errorf ''expected BY after ORDER'' []),
           [SyntaxError BY IDENT 1 43],
           [Get SelectStatementNode, Get ColumnReferenceNode, Get ColumnReferenceNode,
            Get BinaryExpressionNode])"
proof -
  have "report (ParseStatement exampleLib 20 (New orderByQuery)) =
       Some (Inl (Errorf ''expected BY after ORDER'' []),
             [SyntaxError BY IDENT 1 43],
             [Get SelectStatementNode, Get ColumnReferenceNode, Get ColumnReferenceNode,
              Get BinaryExpressionNode])"
    by code_simp
  then show ?thesis
    by (rule report_more_fuel) simp
qed

section \<open>Object pools\<close>

text \<open>
  A parse that starts at \<open>SELECT\<close> obtains a statement node and never hands one
  back, whether it returns a statement or an error.
\<close>

lemma keeps_step [simp]:
  "keeps p q \<Longrightarrow> keeps p (nextToken q)"
  "keeps p q \<Longrightarrow> keeps p (GetNode k q)"
  "keeps p q \<Longrightarrow> k \<noteq> SelectStatementNode \<Longrightarrow> keeps p (PutNode k q)"
  "keeps p q \<Longrightarrow> keeps p (peekError t q)"
  by (auto simp: keeps_def nextToken_def advance_def GetNode_def PutNode_def peekError_def
      split: prod.splits option.splits nat.splits)

lemma keepsAll_simps [simp]:
  "keepsAll p None"
  "keepsAll p (Some rq) = keeps p (snd rq)"
  by (simp_all add: keepsAll_def split: prod.splits)

lemma keepsAll_bind [intro!]:
  "keepsAll p m \<Longrightarrow> (\<And>x q. keeps p q \<Longrightarrow> keepsAll p (f x q)) \<Longrightarrow> keepsAll p (bind m f)"
proof (cases m)
  case None
  then show ?thesis by (simp add: bind_def)
next
  case (Some rq)
  obtain r q where rq: "rq = (r, q)" by (cases rq)
  assume m: "keepsAll p m" and f: "\<And>x q. keeps p q \<Longrightarrow> keepsAll p (f x q)"
  show ?thesis
  proof (cases r)
    case (Inl e)
    with m Some rq show ?thesis by (simp add: bind_def)
  next
    case (Inr x)
    with m Some rq have "keeps p q" by simp
    from f [OF this, of x] Some rq Inr show ?thesis by (simp add: bind_def)
  qed
qed

lemma keepsAll_if [intro!]:
  "(c \<Longrightarrow> keepsAll p a) \<Longrightarrow> (\<not> c \<Longrightarrow> keepsAll p b) \<Longrightarrow> keepsAll p (if c then a else b)"
  by simp

lemma keepsAll_onError [intro!]:
  "keepsAll p m \<Longrightarrow> keepsAll p (onError PutJoinClause m)"
  by (auto simp: onError_def keepsAll_def split: option.splits sum.splits prod.splits)

lemma keeps_parseTopClause [simp]:
  "keeps p0 p \<Longrightarrow> keeps p0 (snd (parseTopClause lib p))"
  by (simp add: parseTopClause_def Let_def split: option.splits)

lemma keeps_parseTableReference [simp]:
  "keeps p0 p \<Longrightarrow> keeps p0 (snd (parseTableReference p))"
  by (simp add: parseTableReference_def Let_def split: prod.splits sum.splits)

lemma keeps_parseNumberLiteral [simp]:
  "keeps p0 p \<Longrightarrow> keeps p0 (snd (parseNumberLiteral lib p))"
  by (simp add: parseNumberLiteral_def split: option.splits)

lemma keeps_parseStringLiteral [simp]:
  "keeps p0 p \<Longrightarrow> keeps p0 (snd (parseStringLiteral p))"
  by (simp add: parseStringLiteral_def)

lemma keeps_joinKeyword [simp]:
  "keeps p0 p \<Longrightarrow> keeps p0 (snd (joinKeyword kw jc p))"
  by (simp add: joinKeyword_def Let_def expectPeek_def split: prod.splits)

lemma keepsAll_expressions:
  "(\<forall>p0 p. keeps p0 p \<longrightarrow> keepsAll p0 (parseExpression lib n p)) \<and>
   (\<forall>p0 p. keeps p0 p \<longrightarrow> keepsAll p0 (parseInfixExpression lib n p)) \<and>
   (\<forall>p0 p left. keeps p0 p \<longrightarrow> keepsAll p0 (parseInfixExpression_loop lib n left p)) \<and>
   (\<forall>p0 p. keeps p0 p \<longrightarrow> keepsAll p0 (parsePrimaryExpression lib n p)) \<and>
   (\<forall>p0 p. keeps p0 p \<longrightarrow> keepsAll p0 (parseIdentifierExpression lib n p)) \<and>
   (\<forall>p0 p name. keeps p0 p \<longrightarrow> keepsAll p0 (parseFunctionCall lib n name p)) \<and>
   (\<forall>p0 p args. keeps p0 p \<longrightarrow> keepsAll p0 (parseFunctionCall_loop lib n args p)) \<and>
   (\<forall>p0 p. keeps p0 p \<longrightarrow> keepsAll p0 (parseGroupedExpression lib n p))"
proof (induction n)
  case 0
  show ?case by simp
next
  case (Suc n)
  then show ?case
    by (auto simp: Let_def expectPeek_def)
qed

lemma keepsAll_parseExpression [simp]:
  "keeps p0 p \<Longrightarrow> keepsAll p0 (parseInfixExpression lib n p)"
  "keeps p0 p \<Longrightarrow> keepsAll p0 (parseExpression lib n p)"
  using keepsAll_expressions [of lib n] by blast+

lemma keepsAll_parseSelectList_loop [simp]:
  "keeps p0 p \<Longrightarrow> keepsAll p0 (parseSelectList_loop lib n columns p)"
  by (induction n arbitrary: p columns) (auto simp: Let_def)

lemma keepsAll_parseSelectList [simp]:
  "keeps p0 p \<Longrightarrow> keepsAll p0 (parseSelectList lib n p)"
  by (auto simp: parseSelectList_def)

lemma keepsAll_parseFromClause_loop [simp]:
  "keeps p0 p \<Longrightarrow> keepsAll p0 (parseFromClause_loop n fromClause p)"
  by (induction n arbitrary: p fromClause) (auto simp: Let_def)

lemma keepsAll_parseFromClause [simp]:
  "keeps p0 p \<Longrightarrow> keepsAll p0 (parseFromClause n p)"
  by (auto simp: parseFromClause_def Let_def)

lemma keepsAll_parseJoinClause [simp]:
  "keeps p0 p \<Longrightarrow> keepsAll p0 (parseJoinClause lib n p)"
  unfolding parseJoinClause_def Let_def
  by (intro keepsAll_bind keepsAll_if keepsAll_onError; simp split del: if_split)

lemma keepsAll_parseSelectStatement_joins [simp]:
  "keeps p0 p \<Longrightarrow> keepsAll p0 (parseSelectStatement_joins lib n stmt p)"
  by (induction n arbitrary: p stmt) (auto simp: Let_def)

lemma keepsAll_parseGroupByClause_loop [simp]:
  "keeps p0 p \<Longrightarrow> keepsAll p0 (parseGroupByClause_loop lib n expressions p)"
  by (induction n arbitrary: p expressions) (auto simp: Let_def)

lemma keepsAll_parseGroupByClause [simp]:
  "keeps p0 p \<Longrightarrow> keepsAll p0 (parseGroupByClause lib n p)"
  by (auto simp: parseGroupByClause_def Let_def expectPeek_def)

lemma keepsAll_parseOrderByItem [simp]:
  "keeps p0 p \<Longrightarrow> keepsAll p0 (parseOrderByItem lib n p)"
  by (auto simp: parseOrderByItem_def Let_def)

lemma keepsAll_parseOrderByClause_loop [simp]:
  "keeps p0 p \<Longrightarrow> keepsAll p0 (parseOrderByClause_loop lib n clauses p)"
  by (induction n arbitrary: p clauses) (auto simp: Let_def)

lemma keepsAll_parseOrderByClause [simp]:
  "keeps p0 p \<Longrightarrow> keepsAll p0 (parseOrderByClause lib n p)"
  by (auto simp: parseOrderByClause_def Let_def expectPeek_def)

lemma keepsAll_parseSelectStatement:
  "Type (curToken p) = SELECT \<Longrightarrow>
     keepsAll (GetSelectStatement p) (parseSelectStatement lib n p)"
proof -
  assume s: "Type (curToken p) = SELECT"
  have k: "keeps (GetSelectStatement p) (GetSelectStatement p)"
    by (simp add: keeps_def)
  from s have c: "curTokenIs SELECT (GetSelectStatement p)"
    by (simp add: curTokenIs_def GetNode_def)
  show ?thesis
    unfolding parseSelectStatement_def Let_def
    using k
    by (simp only: c not_True_eq_False if_False)
      (intro keepsAll_bind keepsAll_if; simp split del: if_split)
qed

lemma select_statement_never_returned:
  assumes "Type (curToken p) = SELECT" and "ParseStatement lib n p = Some (r, q)"
  shows "\<exists>evs. pool q = pool p @ Get SelectStatementNode # evs \<and>
    Put SelectStatementNode \<notin> set evs"
proof -
  from assms(1) have "ParseStatement lib n p =
      bind (parseSelectStatement lib n p) (\<lambda>stmt p. Some (Inr (SelectStmt stmt), p))"
    by (simp add: ParseStatement_def)
  moreover have "keepsAll (GetSelectStatement p)
      (bind (parseSelectStatement lib n p) (\<lambda>stmt p. Some (Inr (SelectStmt stmt), p)))"
    by (intro keepsAll_bind keepsAll_parseSelectStatement assms(1)) simp
  ultimately have "keepsAll (GetSelectStatement p) (ParseStatement lib n p)"
    by simp
  with assms(2) show ?thesis
    by (auto simp: keeps_def GetNode_def)
qed


text \<open>
  Claim C8. The claim asks that every error path hands a node obtained from a pool
  back to it. On \<^verbatim>\<open>SELECT FROM t\<close> the select list fails, and
  \<^verbatim>\<open>parseSelectStatement\<close> returns the error without a \<open>Put\<close> for the statement
  node it obtained (for every fuel from 20 on and every choice of the library
  functions).
\<close>

theorem select_statement_not_returned:
  "report (ParseStatement lib (20 + k) (New noListQuery)) =
     Some (Inl (Errorf ''unexpected token in expression: %s'' [''FROM'']), [],
           [Get SelectStatementNode])"
proof -
  have "report (ParseStatement lib 20 (New noListQuery)) =
       Some (Inl (Errorf ''unexpected token in expression: %s'' [''FROM'']), [],
             [Get SelectStatementNode])"
    by code_simp
  then show ?thesis
    by (rule report_more_fuel) simp
qed

section \<open>The accumulated error list\<close>

text \<open>
  Without cancellation, \<^verbatim>\<open>peekError\<close> is the only function that appends to the
  accumulated list, and its caller \<^verbatim>\<open>expectPeek\<close> is followed at once by the
  return of an error. Every parsing function therefore keeps the invariant
  \<open>tracks\<close>.
\<close>

lemma expectations_errors:
  "snd ` set expectations =
     {Errorf ''expected JOIN after INNER'' [], Errorf ''expected JOIN after LEFT'' [],
      Errorf ''expected JOIN after RIGHT'' [], Errorf ''expected JOIN after FULL'' [],
      Errorf ''expected BY after GROUP'' [], Errorf ''expected BY after ORDER'' [],
      Errorf ''expected ')' to close grouped expression'' []}"
  by (simp add: expectations_def)

lemma errorOf_simps [simp]:
  "errorOf (Inl e) = Some e"
  "errorOf (Inr x) = None"
  by (simp_all add: errorOf_def)

lemma track_None:
  "track p None q \<longleftrightarrow> ctx q = None \<and> errors q = errors p"
  by (simp add: track_def)

lemma track_step [simp]:
  "track p None q \<Longrightarrow> track p None (nextToken q)"
  "track p None q \<Longrightarrow> track p None (GetNode k q)"
  "track p err q \<Longrightarrow> track p err (PutNode k q)"
  by (auto simp: track_def nextToken_def advance_def GetNode_def PutNode_def
      split: prod.splits option.splits)

lemma track_other [simp]:
  "track p None q \<Longrightarrow> e \<notin> snd ` set expectations \<Longrightarrow> track p (Some e) q"
  by (simp add: track_def)

lemma track_peekError [simp]:
  "track p None q \<Longrightarrow> \<not> peekTokenIs t q \<Longrightarrow> (t, e) \<in> set expectations \<Longrightarrow>
     track p (Some e) (peekError t q)"
proof -
  assume t: "track p None q" and n: "\<not> peekTokenIs t q" and m: "(t, e) \<in> set expectations"
  from m have "e \<in> snd ` set expectations"
    by force
  moreover from t have "ctx (peekError t q) = None"
    and "errors (peekError t q) = errors p @ [SyntaxError t (Type (peekToken (peekError t q)))
       (Line (peekToken (peekError t q))) (Column (peekToken (peekError t q)))]"
    by (simp_all add: track_def peekError_def)
  moreover from n have "Type (peekToken (peekError t q)) \<noteq> t"
    by (simp add: peekTokenIs_def peekError_def)
  ultimately show ?thesis
    using m unfolding track_def by auto
qed

lemma expectations_member [simp]:
  "(JOIN, Errorf ''expected JOIN after INNER'' []) \<in> set expectations"
  "(JOIN, Errorf ''expected JOIN after LEFT'' []) \<in> set expectations"
  "(JOIN, Errorf ''expected JOIN after RIGHT'' []) \<in> set expectations"
  "(JOIN, Errorf ''expected JOIN after FULL'' []) \<in> set expectations"
  "(BY, Errorf ''expected BY after GROUP'' []) \<in> set expectations"
  "(BY, Errorf ''expected BY after ORDER'' []) \<in> set expectations"
  "(RPAREN, Errorf ''expected ')' to close grouped expression'' []) \<in> set expectations"
  by (simp_all add: expectations_def)

lemma expectations_other [simp]:
  "Errorf f (a # args) \<notin> snd ` set expectations"
  "Errorf ''expected ON after JOIN table, got %s'' args \<notin> snd ` set expectations"
  "Errorf ''INSERT statement parsing not implemented yet'' args \<notin> snd ` set expectations"
  "Errorf ''UPDATE statement parsing not implemented yet'' args \<notin> snd ` set expectations"
  "Errorf ''DELETE statement parsing not implemented yet'' args \<notin> snd ` set expectations"
  by (simp_all add: expectations_errors)

lemma tracks_simps [simp]:
  "tracks p None"
  "tracks p (Some (r, q)) = track p (errorOf r) q"
  by (simp_all add: tracks_def)

lemma tracks_bind [intro!]:
  "tracks p m \<Longrightarrow> (\<And>x q. track p None q \<Longrightarrow> tracks p (f x q)) \<Longrightarrow> tracks p (bind m f)"
proof (cases m)
  case None
  then show ?thesis by (simp add: bind_def)
next
  case (Some rq)
  obtain r q where rq: "rq = (r, q)" by (cases rq)
  assume m: "tracks p m" and f: "\<And>x q. track p None q \<Longrightarrow> tracks p (f x q)"
  show ?thesis
  proof (cases r)
    case (Inl e)
    with m Some rq show ?thesis by (simp add: bind_def)
  next
    case (Inr x)
    with m Some rq have "track p None q" by simp
    from f [OF this, of x] Some rq Inr show ?thesis by (simp add: bind_def)
  qed
qed

lemma tracks_pair [simp]:
  "tracks p (Some rq) = track p (errorOf (fst rq)) (snd rq)"
  by (cases rq) simp

lemma track_parseTopClause [simp]:
  "track p0 None p \<Longrightarrow>
     track p0 (errorOf (fst (parseTopClause lib p))) (snd (parseTopClause lib p))"
  by (auto simp: parseTopClause_def Let_def split: if_splits option.splits)

lemma track_parseTableReference [simp]:
  "track p0 None p \<Longrightarrow>
     track p0 (errorOf (fst (parseTableReference p))) (snd (parseTableReference p))"
  by (auto simp: parseTableReference_def Let_def split: if_splits option.splits)

lemma track_parseNumberLiteral [simp]:
  "track p0 None p \<Longrightarrow>
     track p0 (errorOf (fst (parseNumberLiteral lib p))) (snd (parseNumberLiteral lib p))"
  by (auto simp: parseNumberLiteral_def Let_def split: if_splits option.splits)

lemma track_parseStringLiteral [simp]:
  "track p0 None p \<Longrightarrow>
     track p0 (errorOf (fst (parseStringLiteral p))) (snd (parseStringLiteral p))"
  by (auto simp: parseStringLiteral_def Let_def split: if_splits option.splits)

lemma tracks_expressions:
  "(\<forall>p0 p. track p0 None p \<longrightarrow> tracks p0 (parseExpression lib n p)) \<and>
   (\<forall>p0 p. track p0 None p \<longrightarrow> tracks p0 (parseInfixExpression lib n p)) \<and>
   (\<forall>p0 p left. track p0 None p \<longrightarrow> tracks p0 (parseInfixExpression_loop lib n left p)) \<and>
   (\<forall>p0 p. track p0 None p \<longrightarrow> tracks p0 (parsePrimaryExpression lib n p)) \<and>
   (\<forall>p0 p. track p0 None p \<longrightarrow> tracks p0 (parseIdentifierExpression lib n p)) \<and>
   (\<forall>p0 p name. track p0 None p \<longrightarrow> tracks p0 (parseFunctionCall lib n name p)) \<and>
   (\<forall>p0 p args. track p0 None p \<longrightarrow> tracks p0 (parseFunctionCall_loop lib n args p)) \<and>
   (\<forall>p0 p. track p0 None p \<longrightarrow> tracks p0 (parseGroupedExpression lib n p))"
proof (induction n)
  case 0
  show ?case by simp
next
  case (Suc n)
  then show ?case
    by (auto simp: Let_def expectPeek_def)
qed

lemma tracks_parseExpression [simp]:
  "track p0 None p \<Longrightarrow> tracks p0 (parseInfixExpression lib n p)"
  using tracks_expressions [of lib n] by blast

lemma tracks_parseSelectList_loop [simp]:
  "track p0 None p \<Longrightarrow> tracks p0 (parseSelectList_loop lib n columns p)"
  by (induction n arbitrary: p columns) (auto simp: Let_def)

lemma tracks_parseSelectList [simp]:
  "track p0 None p \<Longrightarrow> tracks p0 (parseSelectList lib n p)"
  by (auto simp: parseSelectList_def)

lemma tracks_parseFromClause_loop [simp]:
  "track p0 None p \<Longrightarrow> tracks p0 (parseFromClause_loop n fromClause p)"
  by (induction n arbitrary: p fromClause) (auto simp: Let_def)

lemma tracks_parseFromClause [simp]:
  "track p0 None p \<Longrightarrow> tracks p0 (parseFromClause n p)"
  by (auto simp: parseFromClause_def Let_def)

lemma track_joinKeyword [simp]:
  "track p0 None p \<Longrightarrow> kw \<in> {''INNER'', ''LEFT'', ''RIGHT'', ''FULL''} \<Longrightarrow>
     track p0 (errorOf (fst (joinKeyword kw joinClause p))) (snd (joinKeyword kw joinClause p))"
  by (auto simp: joinKeyword_def Let_def expectPeek_def)

lemma tracks_if [intro!]:
  "(c \<Longrightarrow> tracks p0 a) \<Longrightarrow> (\<not> c \<Longrightarrow> tracks p0 b) \<Longrightarrow> tracks p0 (if c then a else b)"
  by simp

lemma tracks_onError [intro!]:
  "tracks p0 m \<Longrightarrow> tracks p0 (onError (PutNode k) m)"
  by (auto simp: onError_def tracks_def split: option.splits sum.splits prod.splits)

lemma tracks_parseJoinClause [simp]:
  "track p0 None p \<Longrightarrow> tracks p0 (parseJoinClause lib n p)"
  unfolding parseJoinClause_def Let_def
  by (intro tracks_bind tracks_if tracks_onError; simp split del: if_split)

lemma tracks_parseSelectStatement_joins [simp]:
  "track p0 None p \<Longrightarrow> tracks p0 (parseSelectStatement_joins lib n stmt p)"
  by (induction n arbitrary: p stmt) (auto simp: Let_def)

lemma tracks_parseGroupByClause_loop [simp]:
  "track p0 None p \<Longrightarrow> tracks p0 (parseGroupByClause_loop lib n expressions p)"
  by (induction n arbitrary: p expressions) (auto simp: Let_def)

lemma tracks_parseGroupByClause [simp]:
  "track p0 None p \<Longrightarrow> tracks p0 (parseGroupByClause lib n p)"
  by (auto simp: parseGroupByClause_def Let_def expectPeek_def)

lemma tracks_parseOrderByItem [simp]:
  "track p0 None p \<Longrightarrow> tracks p0 (parseOrderByItem lib n p)"
  by (auto simp: parseOrderByItem_def Let_def)

lemma tracks_parseOrderByClause_loop [simp]:
  "track p0 None p \<Longrightarrow> tracks p0 (parseOrderByClause_loop lib n clauses p)"
  by (induction n arbitrary: p clauses) (auto simp: Let_def)

lemma tracks_parseOrderByClause [simp]:
  "track p0 None p \<Longrightarrow> tracks p0 (parseOrderByClause lib n p)"
  by (auto simp: parseOrderByClause_def Let_def expectPeek_def)

lemma tracks_parseSelectStatement [simp]:
  "track p0 None p \<Longrightarrow> tracks p0 (parseSelectStatement lib n p)"
  unfolding parseSelectStatement_def Let_def
  by (intro tracks_bind tracks_if; simp split del: if_split)

lemma tracks_ParseStatement:
  "track p0 None p \<Longrightarrow> tracks p0 (ParseStatement lib n p)"
  unfolding ParseStatement_def parseInsertStatement_def parseUpdateStatement_def
      parseDeleteStatement_def
  by (intro tracks_bind tracks_if; simp split del: if_split)

text \<open>
  The two forms of \<open>ParseStatement\<close> agree: they return under the same fuel, with
  the same error, if any, and leave the same parser behind.
\<close>

lemma returned_simps [simp]:
  "returned pointer (Inl e, p) = ((pointer None, Some e), p)"
  "returned pointer (Inr v, p) = ((pointer (Some v), None), p)"
  by (simp_all add: returned_def)

lemma ParseStatement_pair_error:
  "map_option (\<lambda>x. (snd (fst x), snd x)) (ParseStatement_pair lib n p) =
   map_option (\<lambda>x. (errorOf (fst x), snd x)) (ParseStatement lib n p)"
proof (cases "parseSelectStatement lib n p")
  case None
  then show ?thesis
    by (simp add: ParseStatement_pair_def ParseStatement_def parseInsertStatement_def
        parseUpdateStatement_def parseDeleteStatement_def bind_def)
next
  case (Some x)
  obtain r q where "x = (r, q)" by (cases x)
  with Some show ?thesis
    by (cases r) (simp_all add: ParseStatement_pair_def ParseStatement_def
        parseInsertStatement_def parseUpdateStatement_def parseDeleteStatement_def bind_def)
qed

lemma ParseStatement_pair_None:
  "ParseStatement_pair lib n p = None \<longleftrightarrow> ParseStatement lib n p = None"
proof -
  have "ParseStatement_pair lib n p = None \<longleftrightarrow>
      map_option (\<lambda>x. (snd (fst x), snd x)) (ParseStatement_pair lib n p) = None"
    by simp
  also have "\<dots> \<longleftrightarrow>
      map_option (\<lambda>x. (errorOf (fst x), snd x)) (ParseStatement lib n p) = None"
    by (simp only: ParseStatement_pair_error)
  also have "\<dots> \<longleftrightarrow> ParseStatement lib n p = None"
    by simp
  finally show ?thesis .
qed


text \<open>
  Claim C3, as the claim states it, fails: on \<^verbatim>\<open>SELECT TOP x FROM t\<close> the parser
  returns no statement, and the accumulated list \<^verbatim>\<open>p.Errors()\<close> stays empty; the
  returned error holds the text of the offending token and no line or column.
\<close>

theorem failure_with_empty_error_list:
  "report (ParseStatement exampleLib 20 (New topQuery)) =
     Some (Inl (Errorf ''expected number after TOP, got %s'' [''x'']), [],
           [Get SelectStatementNode])"
  by code_simp

text \<open>
  Claim C3, amended. When cancellation is never observed, \<open>ParseStatement\<close> returns
  in one of two ways.

  \<^item> With no error: the statement value holds a \<open>SELECT\<close> statement, and the
    accumulated list is as it was before the call (empty, for a new parser).

  \<^item> With an error: the statement value holds no statement; it is the nil interface
    when the current token is none of \<open>SELECT\<close>, \<open>INSERT\<close>, \<open>UPDATE\<close>,
    \<open>DELETE\<close>, and otherwise an interface value holding a nil pointer. If the error
    is not one of a failed \<^verbatim>\<open>expectPeek\<close>, the accumulated list is as it was before
    the call. If it is one of the seven errors of a failed \<^verbatim>\<open>expectPeek\<close>, the list
    is longer by exactly one syntax error: its expected kind is the one that goes with
    the returned error in \<open>expectations\<close>, and its found kind, line and column are
    those of the lookahead token that the parser is left with, which is not of the
    expected kind.

  So the diagnostic of a failure is the returned error, and the accumulated list may
  be empty after a failure. That \<open>ParseStatement\<close> does return in these conditions
  is \<open>ParseStatement_pair_returns\<close>, in the section on cancellation.
\<close>

theorem ParseStatement_outcome:
  assumes "ctx p = None" and "ParseStatement_pair lib n p = Some ((s, err), q)"
  shows "(err = None \<and> (\<exists>stmt. s = SelectPointer (Some stmt)) \<and> errors q = errors p) \<or>
         (\<exists>e. err = Some e \<and>
            s = (if Type (curToken p) = SELECT then SelectPointer None
                 else if Type (curToken p) = INSERT then InsertPointer
                 else if Type (curToken p) = UPDATE then UpdatePointer
                 else if Type (curToken p) = DELETE then DeletePointer
                 else NilInterface) \<and>
            (e \<notin> snd ` set expectations \<and> errors q = errors p \<or>
             (\<exists>t. (t, e) \<in> set expectations \<and> Type (peekToken q) \<noteq> t \<and>
                errors q = errors p @ [SyntaxError t (Type (peekToken q))
                                        (Line (peekToken q)) (Column (peekToken q))])))"
proof (cases "Type (curToken p) = SELECT")
  case True
  with assms(2) obtain x where
    x: "parseSelectStatement lib n p = Some x" and r: "returned SelectPointer x = ((s, err), q)"
    by (auto simp: ParseStatement_pair_def)
  obtain r' q' where x': "x = (r', q')"
    by (cases x)
  from assms(1) have "track p None p"
    by (simp add: track_def)
  then have "tracks p (parseSelectStatement lib n p)"
    by (rule tracks_parseSelectStatement)
  with x x' have t: "track p (errorOf r') q'"
    by simp
  show ?thesis
  proof (cases r')
    case (Inl e)
    with r x' have "s = SelectPointer None" "err = Some e" "q' = q"
      by simp_all
    with t Inl True show ?thesis
      by (auto simp: track_def split: if_splits)
  next
    case (Inr stmt)
    with r x' have "s = SelectPointer (Some stmt)" "err = None" "q' = q"
      by simp_all
    with t Inr show ?thesis
      by (simp add: track_def)
  qed
next
  case False
  with assms(2) show ?thesis
    by (auto simp: ParseStatement_pair_def parseInsertStatement_def parseUpdateStatement_def
        parseDeleteStatement_def split: if_splits)
qed

theorem ParseStatement_outcome_witness:
  "ctx (New bareJoinQuery) = None \<and>
   (\<exists>stmt q. ParseStatement_pair exampleLib 20 (New bareJoinQuery) =
        Some ((SelectPointer (Some stmt), None), q) \<and> errors q = []) \<and>
   ctx (New orderByQuery) = None \<and>
   (\<exists>q. ParseStatement_pair exampleLib 20 (New orderByQuery) =
        Some ((SelectPointer None, Some (Errorf ''expected BY after ORDER'' [])), q) \<and>
      Type (peekToken q) \<noteq> BY \<and>
      errors q = [SyntaxError BY (Type (peekToken q)) (Line (peekToken q))
                    (Column (peekToken q))]) \<and>
   ctx (New topQuery) = None \<and>
   (\<exists>q. ParseStatement_pair exampleLib 20 (New topQuery) =
        Some ((SelectPointer None, Some (Errorf ''expected number after TOP, got %s'' [''x''])), q) \<and>
      errors q = [])"
proof -
  have c1: "ctx (New bareJoinQuery) = None" and e1: "errors (New bareJoinQuery) = []"
    by code_simp+
  have c2: "ctx (New orderByQuery) = None" and e2: "errors (New orderByQuery) = []"
    and k2: "Type (curToken (New orderByQuery)) = SELECT"
    by code_simp+
  have c3: "ctx (New topQuery) = None" and e3: "errors (New topQuery) = []"
    and k3: "Type (curToken (New topQuery)) = SELECT"
    by code_simp+
  have "ParseStatement_pair exampleLib 20 (New bareJoinQuery) \<noteq> None"
    and "snd (fst (the (ParseStatement_pair exampleLib 20 (New bareJoinQuery)))) = None"
    by code_simp+
  then obtain s1 q1 where
    r1: "ParseStatement_pair exampleLib 20 (New bareJoinQuery) = Some ((s1, None), q1)"
    by (cases "ParseStatement_pair exampleLib 20 (New bareJoinQuery)") auto
  have "ParseStatement_pair exampleLib 20 (New orderByQuery) \<noteq> None"
    and "snd (fst (the (ParseStatement_pair exampleLib 20 (New orderByQuery)))) =
      Some (Errorf ''expected BY after ORDER'' [])"
    by code_simp+
  then obtain s2 q2 where
    r2: "ParseStatement_pair exampleLib 20 (New orderByQuery) =
      Some ((s2, Some (Errorf ''expected BY after ORDER'' [])), q2)"
    by (cases "ParseStatement_pair exampleLib 20 (New orderByQuery)") auto
  have "ParseStatement_pair exampleLib 20 (New topQuery) \<noteq> None"
    and "snd (fst (the (ParseStatement_pair exampleLib 20 (New topQuery)))) =
      Some (Errorf ''expected number after TOP, got %s'' [''x''])"
    by code_simp+
  then obtain s3 q3 where
    r3: "ParseStatement_pair exampleLib 20 (New topQuery) =
      Some ((s3, Some (Errorf ''expected number after TOP, got %s'' [''x''])), q3)"
    by (cases "ParseStatement_pair exampleLib 20 (New topQuery)") auto
  from ParseStatement_outcome [OF c1 r1] e1
  have "\<exists>stmt. s1 = SelectPointer (Some stmt) \<and> errors q1 = []"
    by auto
  moreover from ParseStatement_outcome [OF c2 r2] e2 k2
  have "s2 = SelectPointer None \<and> Type (peekToken q2) \<noteq> BY \<and>
      errors q2 = [SyntaxError BY (Type (peekToken q2)) (Line (peekToken q2))
                     (Column (peekToken q2))]"
    by (auto simp: expectations_def)
  moreover from ParseStatement_outcome [OF c3 r3] e3 k3
  have "s3 = SelectPointer None \<and> errors q3 = []"
    by (auto simp: expectations_def)
  ultimately show ?thesis
    using c1 c2 c3 r1 r2 r3 by blast
qed

section \<open>Cancellation\<close>

text \<open>
  Claim C5, as the claim states it, fails: on \<^verbatim>\<open>SELECT a GROUP BY b\<close>, with the
  context found done from the fifth check on (when \<open>GROUP\<close> is the current token),
  the parse appends three cancellation errors, one for each later call of
  \<^verbatim>\<open>nextToken\<close>, and not exactly one.
\<close>

theorem three_cancellation_errors:
  "report (ParseStatement exampleLib 20 (NewWithContext (Some 4) groupByQuery)) =
     Some (Inl (Errorf ''unexpected token in expression: %s'' [''GROUP'']),
           [cancelled, cancelled, cancelled],
           [Get SelectStatementNode, Get ColumnReferenceNode])"
  by code_simp

text \<open>
  Claim C5, amended. Once the context is done, every call of \<^verbatim>\<open>nextToken\<close>
  appends one cancellation error and changes nothing else: \<open>k\<close> calls append \<open>k\<close>
  cancellation errors and leave the current token, the token after it, the tokenizer,
  the token count and the context as they were.
\<close>

theorem nextToken_after_cancellation:
  "ctx p = Some 0 \<Longrightarrow> (nextToken ^^ k) p = p\<lparr>errors := errors p @ replicate k cancelled\<rparr>"
  by (induction k) (simp_all add: nextToken_def replicate_append_same)

theorem nextToken_after_cancellation_witness:
  "ctx (NewWithContext (Some 2) groupByQuery) = Some 0 \<and>
   (nextToken ^^ 3) (NewWithContext (Some 2) groupByQuery) =
     (NewWithContext (Some 2) groupByQuery)\<lparr>errors := [cancelled, cancelled, cancelled]\<rparr>"
proof -
  have c: "ctx (NewWithContext (Some 2) groupByQuery) = Some 0"
    and e: "errors (NewWithContext (Some 2) groupByQuery) = []"
    by code_simp+
  from nextToken_after_cancellation [OF c, of 3] e c show ?thesis
    by (simp add: numeral_3_eq_3)
qed

subsection \<open>A parse that never returns\<close>

text \<open>
  Once the context is done \<^verbatim>\<open>nextToken\<close> no longer advances. The loop of
  \<^verbatim>\<open>parseInfixExpression\<close> then never leaves an operator \<open>*\<close>: the operator stays
  the current token, \<^verbatim>\<open>parsePrimaryExpression\<close> reads it as the star expression, and
  the loop test holds again. In the model the loop returns \<open>None\<close> for every amount
  of fuel.
\<close>

lemma nextToken_done:
  "ctx p = Some 0 \<Longrightarrow> nextToken p = p\<lparr>errors := errors p @ [cancelled]\<rparr>"
  by (simp add: nextToken_def)

lemma infix_loop_never_returns:
  "ctx p = Some 0 \<Longrightarrow> Type (curToken p) = ASTERISK \<Longrightarrow>
     parseInfixExpression_loop lib n left p = None"
proof (induction n arbitrary: left p)
  case 0
  show ?case by simp
next
  case (Suc n)
  let ?p1 = "nextToken p"
  from Suc.prems have p1: "ctx ?p1 = Some 0" "Type (curToken ?p1) = ASTERISK"
    by (simp_all add: nextToken_done)
  show ?case
  proof (cases n)
    case 0
    with Suc.prems show ?thesis
      by (simp add: isInfixOperator_def bind_def)
  next
    case (Suc m)
    let ?p2 = "GetBinaryExpression (nextToken ?p1)"
    from p1 have "ctx ?p2 = Some 0" "Type (curToken ?p2) = ASTERISK"
      by (simp_all add: nextToken_done GetNode_def)
    then have "parseInfixExpression_loop lib n (BinaryExpression left (Literal (curToken p)) (StarExpression [])) ?p2 = None"
      by (rule Suc.IH)
    with Suc.prems p1 Suc show ?thesis
      by (simp add: isInfixOperator_def bind_def Let_def)
  qed
qed

lemma infix_never_returns:
  assumes "ctx p = Some 1" and "Type (curToken p) = IDENT" and "Type (peekToken p) = ASTERISK"
  shows "parseInfixExpression lib n p = None"
proof -
  let ?p1 = "nextToken p"
  from assms have p1: "ctx ?p1 = Some 0" "Type (curToken ?p1) = ASTERISK"
    by (simp_all add: nextToken_def advance_def split: prod.splits)
  then have loop: "parseInfixExpression_loop lib k left (GetColumnReference ?p1) = None" for k left
    by (intro infix_loop_never_returns) (simp_all add: GetNode_def)
  show ?thesis
  proof (cases n)
    case 0
    then show ?thesis by simp
  next
    case n: (Suc m)
    have step: "parseInfixExpression lib (Suc m) p =
        bind (parsePrimaryExpression lib m p) (\<lambda>left p. parseInfixExpression_loop lib m left p)"
      by simp
    show ?thesis
    proof (cases m)
      case 0
      with n show ?thesis by (simp add: bind_def)
    next
      case m: (Suc j)
      show ?thesis
      proof (cases j)
        case 0
        with n m assms show ?thesis by (simp add: bind_def)
      next
        case (Suc i)
        with m assms p1 have prim: "parsePrimaryExpression lib m p =
            Some (Inr (ColumnReference [] (Literal (curToken p))), GetColumnReference ?p1)"
          by (simp add: Let_def curTokenIs_def)
        show ?thesis
          unfolding n step prim
          by (simp only: bind_def option.case sum.case prod.case loop)
      qed
    qed
  qed
qed

lemma select_never_returns:
  assumes "ctx p = Some 2" and "Type (curToken p) = SELECT" and "Type (peekToken p) = IDENT"
    and "l p = t # ts" and "Type t = ASTERISK"
  shows "ParseStatement lib n p = None"
proof -
  let ?p1 = "nextToken (GetSelectStatement p)"
  from assms have "ctx ?p1 = Some 1" "Type (curToken ?p1) = IDENT" "Type (peekToken ?p1) = ASTERISK"
    by (simp_all add: nextToken_def advance_def GetNode_def NextToken_def numeral_2_eq_2)
  then have "parseInfixExpression lib n ?p1 = None"
    by (rule infix_never_returns)
  with assms \<open>Type (curToken ?p1) = IDENT\<close> show ?thesis
    by (simp add: ParseStatement_def parseSelectStatement_def parseSelectList_def
        bind_def Let_def curTokenIs_def GetNode_def)
qed

text \<open>
  Claim C4. The claim asks that \<open>ParseStatement\<close> returns for every input and every
  cancellation signal. On \<^verbatim>\<open>SELECT a * b\<close>, with the context found done from the
  fifth check on (when \<open>*\<close> has become the current token), \<open>ParseStatement\<close> does
  not return, whatever the fuel and the library functions.
\<close>

theorem cancelled_parse_never_returns:
  "ParseStatement lib n (NewWithContext (Some 4) mulQuery) = None"
proof -
  have "ctx (NewWithContext (Some 4) mulQuery) = Some 2"
    "Type (curToken (NewWithContext (Some 4) mulQuery)) = SELECT"
    "Type (peekToken (NewWithContext (Some 4) mulQuery)) = IDENT"
    "l (NewWithContext (Some 4) mulQuery) = [tok ASTERISK ''*'' 10, tok IDENT ''b'' 12, tok EOF [] 13]"
    "Type (tok ASTERISK ''*'' 10) = ASTERISK"
    by code_simp+
  then show ?thesis
    by (rule select_never_returns)
qed


subsection \<open>A parse without cancellation returns\<close>

text \<open>
  When the context is never done, every call of \<^verbatim>\<open>nextToken\<close> on a token other
  than \<open>EOF\<close> lowers \<open>pending\<close>, and every loop iteration and every recursive call
  of the parser is preceded by such a call. So \<open>ParseStatement\<close> returns: fuel
  \<open>4 * pending p + 4\<close> is enough.
\<close>

lemma ctx_nextToken [simp]: "ctx p = None \<Longrightarrow> ctx (nextToken p) = None"
  by (simp add: nextToken_def advance_def split: prod.splits)

lemma pending_nextToken:
  "ctx p = None \<Longrightarrow>
     pending (nextToken p) = pending p - (if Type (curToken p) = EOF then 0 else 1)"
  by (cases "l p")
    (auto simp: pending_def nextToken_def advance_def NextToken_def eofToken_def)

lemma pending_nextToken_le [simp]:
  "ctx p = None \<Longrightarrow> pending p \<le> k \<Longrightarrow> pending (nextToken p) \<le> k"
  by (simp add: pending_nextToken)

lemma pending_pos: "Type (curToken p) \<noteq> EOF \<Longrightarrow> 0 < pending p"
  by (simp add: pending_def)

lemma pending_nextToken_less:
  "ctx p = None \<Longrightarrow> Type (curToken p) \<noteq> EOF \<Longrightarrow> pending p \<le> k \<Longrightarrow>
     pending (nextToken p) \<le> k - 1 \<and> 0 < k"
  using pending_pos [of p] by (simp add: pending_nextToken)

lemma node_simps [simp]:
  "ctx (GetNode kd p) = ctx p" "pending (GetNode kd p) = pending p"
  "ctx (PutNode kd p) = ctx p" "pending (PutNode kd p) = pending p"
  "ctx (peekError t p) = ctx p" "pending (peekError t p) = pending p"
  "curToken (GetNode kd p) = curToken p" "curToken (PutNode kd p) = curToken p"
  by (simp_all add: GetNode_def PutNode_def peekError_def pending_def)

lemma returns_Some [simp]: "returns k (Some (r, q)) \<longleftrightarrow> ctx q = None \<and> pending q \<le> k"
  by (simp add: returns_def)

lemma returns_pair: "returns k (Some rq) \<longleftrightarrow> ctx (snd rq) = None \<and> pending (snd rq) \<le> k"
  by (cases rq) simp

lemma returns_mono: "returns j m \<Longrightarrow> j \<le> k \<Longrightarrow> returns k m"
  by (auto simp: returns_def)

lemma returns_bind [intro!]:
  "returns k m \<Longrightarrow> (\<And>x q. ctx q = None \<Longrightarrow> pending q \<le> k \<Longrightarrow> returns k (f x q)) \<Longrightarrow>
     returns k (bind m f)"
  by (auto simp: returns_def bind_def split: sum.splits)

lemma returns_if [intro!]:
  "(c \<Longrightarrow> returns k a) \<Longrightarrow> (\<not> c \<Longrightarrow> returns k b) \<Longrightarrow> returns k (if c then a else b)"
  by simp

lemma returns_onError [intro!]: "returns k m \<Longrightarrow> returns k (onError (PutNode kd) m)"
  by (auto simp: returns_def onError_def split: sum.splits)

lemma calm_parseNumberLiteral [simp]:
  "ctx p = None \<Longrightarrow> ctx (snd (parseNumberLiteral lib p)) = None"
  "ctx p = None \<Longrightarrow> pending p \<le> k \<Longrightarrow> pending (snd (parseNumberLiteral lib p)) \<le> k"
  by (simp_all add: parseNumberLiteral_def split: option.splits)

lemma calm_parseStringLiteral [simp]:
  "ctx p = None \<Longrightarrow> ctx (snd (parseStringLiteral p)) = None"
  "ctx p = None \<Longrightarrow> pending p \<le> k \<Longrightarrow> pending (snd (parseStringLiteral p)) \<le> k"
  by (simp_all add: parseStringLiteral_def)

lemma infix_not_EOF: "isInfixOperator t \<Longrightarrow> t \<noteq> EOF"
  by (auto simp: isInfixOperator_def)

lemma returns_expressions:
  "\<forall>k p. ctx p = None \<longrightarrow> pending p \<le> k \<longrightarrow>
     (4 * k + 4 \<le> n \<longrightarrow> returns k (parseExpression lib n p)) \<and>
     (4 * k + 4 \<le> n \<longrightarrow> returns k (parseInfixExpression lib n p)) \<and>
     (4 * k + 1 \<le> n \<longrightarrow> (\<forall>left. returns k (parseInfixExpression_loop lib n left p))) \<and>
     (4 * k + 3 \<le> n \<longrightarrow> returns k (parsePrimaryExpression lib n p)) \<and>
     (4 * k + 2 \<le> n \<longrightarrow> returns k (parseIdentifierExpression lib n p)) \<and>
     (4 * k + 1 \<le> n \<longrightarrow> (\<forall>name. returns k (parseFunctionCall lib n name p))) \<and>
     (4 * k + 1 \<le> n \<longrightarrow> (\<forall>args. returns k (parseFunctionCall_loop lib n args p))) \<and>
     (4 * k + 1 \<le> n \<longrightarrow> Type (curToken p) = LPAREN \<longrightarrow>
        returns k (parseGroupedExpression lib n p))"
proof (induction n)
  case 0
  show ?case by simp
next
  case (Suc n)
  have expr: "returns k (parseInfixExpression lib n p)"
    if "ctx p = None" "pending p \<le> k" "4 * k + 4 \<le> n" for k p
    using Suc.IH that by blast
  have prim: "returns k (parsePrimaryExpression lib n p)"
    if "ctx p = None" "pending p \<le> k" "4 * k + 3 \<le> n" for k p
    using Suc.IH that by blast
  have loop: "returns k (parseInfixExpression_loop lib n left p)"
    if "ctx p = None" "pending p \<le> k" "4 * k + 1 \<le> n" for k p left
    using Suc.IH that by blast
  have ident: "returns k (parseIdentifierExpression lib n p)"
    if "ctx p = None" "pending p \<le> k" "4 * k + 2 \<le> n" for k p
    using Suc.IH that by blast
  have call: "returns k (parseFunctionCall lib n name p)"
    if "ctx p = None" "pending p \<le> k" "4 * k + 1 \<le> n" for k p name
    using Suc.IH that by blast
  have args: "returns k (parseFunctionCall_loop lib n as p)"
    if "ctx p = None" "pending p \<le> k" "4 * k + 1 \<le> n" for k p as
    using Suc.IH that by blast
  have grouped: "returns k (parseGroupedExpression lib n p)"
    if "ctx p = None" "pending p \<le> k" "4 * k + 1 \<le> n" "Type (curToken p) = LPAREN" for k p
    using Suc.IH that by blast
  show ?case
  proof (intro allI impI conjI)
    fix k p
    assume c: "ctx p = None" and b: "pending p \<le> k"
    {
      assume n: "4 * k + 4 \<le> Suc n"
      show i: "returns k (parseInfixExpression lib (Suc n) p)"
        using c b n by (auto intro!: prim loop)
      then show "returns k (parseExpression lib (Suc n) p)"
        by simp
    }
    {
      fix left
      assume n: "4 * k + 1 \<le> Suc n"
      show "returns k (parseInfixExpression_loop lib (Suc n) left p)"
      proof (cases "isInfixOperator (Type (curToken p))")
        case False
        with c b show ?thesis by simp
      next
        case True
        with c b have d: "pending (nextToken p) \<le> k - 1" "0 < k"
          using pending_nextToken_less [of p k] infix_not_EOF by auto
        have "returns (k - 1) (parseInfixExpression_loop lib (Suc n) left p)"
          using True c d n by (auto simp: Let_def intro!: prim loop)
        then show ?thesis
          by (rule returns_mono) simp
      qed
    }
    {
      assume n: "4 * k + 3 \<le> Suc n"
      show "returns k (parsePrimaryExpression lib (Suc n) p)"
        using c b n by (auto simp: returns_pair intro!: ident grouped)
    }
    {
      assume n: "4 * k + 2 \<le> Suc n"
      show "returns k (parseIdentifierExpression lib (Suc n) p)"
        using c b n by (auto simp: Let_def intro!: call)
    }
    {
      fix name
      assume n: "4 * k + 1 \<le> Suc n"
      show "returns k (parseFunctionCall lib (Suc n) name p)"
      proof (cases "curTokenIs LPAREN p")
        case False
        with c b show ?thesis by simp
      next
        case True
        with c b have d: "pending (nextToken p) \<le> k - 1" "0 < k"
          using pending_nextToken_less [of p k] by (auto simp: curTokenIs_def)
        have "returns (k - 1) (parseFunctionCall lib (Suc n) name p)"
          using True c d n by (auto simp: Let_def intro!: expr args)
        then show ?thesis
          by (rule returns_mono) simp
      qed
    }
    {
      fix as
      assume n: "4 * k + 1 \<le> Suc n"
      show "returns k (parseFunctionCall_loop lib (Suc n) as p)"
      proof (cases "curTokenIs COMMA p")
        case False
        with c b show ?thesis by simp
      next
        case True
        with c b have d: "pending (nextToken p) \<le> k - 1" "0 < k"
          using pending_nextToken_less [of p k] by (auto simp: curTokenIs_def)
        have "returns (k - 1) (parseFunctionCall_loop lib (Suc n) as p)"
          using True c d n by (auto simp: Let_def intro!: expr args)
        then show ?thesis
          by (rule returns_mono) simp
      qed
    }
    {
      assume n: "4 * k + 1 \<le> Suc n" and t: "Type (curToken p) = LPAREN"
      with c b have d: "pending (nextToken p) \<le> k - 1" "0 < k"
        using pending_nextToken_less [of p k] by auto
      have "returns (k - 1) (parseGroupedExpression lib (Suc n) p)"
        using c d n by (auto simp: Let_def expectPeek_def intro!: expr)
      then show "returns k (parseGroupedExpression lib (Suc n) p)"
        by (rule returns_mono) simp
    }
  qed
qed

lemma returns_parseExpression:
  "ctx p = None \<Longrightarrow> pending p \<le> k \<Longrightarrow> 4 * k + 4 \<le> n \<Longrightarrow>
     returns k (parseInfixExpression lib n p)"
  "ctx p = None \<Longrightarrow> pending p \<le> k \<Longrightarrow> 4 * k + 4 \<le> n \<Longrightarrow>
     returns k (parseExpression lib n p)"
  using returns_expressions [of n lib] by blast+

lemma calm_parseTopClause [simp]:
  "ctx p = None \<Longrightarrow> ctx (snd (parseTopClause lib p)) = None"
  "ctx p = None \<Longrightarrow> pending p \<le> k \<Longrightarrow> pending (snd (parseTopClause lib p)) \<le> k"
  by (simp_all add: parseTopClause_def Let_def split: option.splits)

lemma calm_parseTableReference [simp]:
  "ctx p = None \<Longrightarrow> ctx (snd (parseTableReference p)) = None"
  "ctx p = None \<Longrightarrow> pending p \<le> k \<Longrightarrow> pending (snd (parseTableReference p)) \<le> k"
  by (simp_all add: parseTableReference_def Let_def split: prod.splits sum.splits)

lemma calm_joinKeyword [simp]:
  "ctx p = None \<Longrightarrow> ctx (snd (joinKeyword kw jc p)) = None"
  "ctx p = None \<Longrightarrow> pending p \<le> k \<Longrightarrow> pending (snd (joinKeyword kw jc p)) \<le> k"
  by (simp_all add: joinKeyword_def Let_def expectPeek_def split: prod.splits)

lemma returns_parseSelectList_loop:
  "ctx p = None \<Longrightarrow> pending p \<le> k \<Longrightarrow> 4 * k + 1 \<le> n \<Longrightarrow>
     returns k (parseSelectList_loop lib n columns p)"
proof (induction n arbitrary: k p columns)
  case 0
  then show ?case by simp
next
  case (Suc n)
  show ?case
  proof (cases "curTokenIs COMMA p")
    case False
    with Suc.prems show ?thesis by simp
  next
    case True
    with Suc.prems have d: "pending (nextToken p) \<le> k - 1" "0 < k"
      using pending_nextToken_less [of p k] by (auto simp: curTokenIs_def)
    have "returns (k - 1) (parseSelectList_loop lib (Suc n) columns p)"
      using True Suc.prems d
      by (auto simp: Let_def intro!: returns_parseExpression Suc.IH)
    then show ?thesis
      by (rule returns_mono) simp
  qed
qed

lemma returns_parseSelectList:
  "ctx p = None \<Longrightarrow> pending p \<le> k \<Longrightarrow> 4 * k + 4 \<le> n \<Longrightarrow>
     returns k (parseSelectList lib n p)"
  by (auto simp: parseSelectList_def intro!: returns_parseExpression returns_parseSelectList_loop)

lemma returns_parseFromClause_loop:
  "ctx p = None \<Longrightarrow> pending p \<le> k \<Longrightarrow> 4 * k + 1 \<le> n \<Longrightarrow>
     returns k (parseFromClause_loop n fromClause p)"
proof (induction n arbitrary: k p fromClause)
  case 0
  then show ?case by simp
next
  case (Suc n)
  show ?case
  proof (cases "curTokenIs COMMA p")
    case False
    with Suc.prems show ?thesis by simp
  next
    case True
    with Suc.prems have d: "pending (nextToken p) \<le> k - 1" "0 < k"
      using pending_nextToken_less [of p k] by (auto simp: curTokenIs_def)
    have "returns (k - 1) (parseFromClause_loop (Suc n) fromClause p)"
      using True Suc.prems d
      by (auto simp: Let_def returns_pair intro!: Suc.IH)
    then show ?thesis
      by (rule returns_mono) simp
  qed
qed

lemma returns_parseFromClause:
  "ctx p = None \<Longrightarrow> pending p \<le> k \<Longrightarrow> 4 * k + 1 \<le> n \<Longrightarrow>
     returns k (parseFromClause n p)"
  by (auto simp: parseFromClause_def Let_def returns_pair intro!: returns_parseFromClause_loop)

lemma returns_parseJoinClause:
  assumes "ctx p = None" and "pending p \<le> k" and "4 * k \<le> n"
    and "Type (curToken p) \<in> {JOIN, INNER, LEFT, RIGHT, FULL}"
  shows "returns (k - 1) (parseJoinClause lib n p) \<and> 0 < k"
proof -
  from assms have d: "pending (nextToken (GetJoinClause p)) \<le> k - 1" "0 < k"
    using pending_nextToken_less [of "GetJoinClause p" k] by auto
  have j: "ctx (snd (joinKeyword kw jc (GetJoinClause p))) = None \<and>
      pending (snd (joinKeyword kw jc (GetJoinClause p))) \<le> k - 1" for kw jc
    using assms(1) d by (simp add: joinKeyword_def Let_def expectPeek_def split: prod.splits)
  have "returns (k - 1) (parseJoinClause lib n p)"
    unfolding parseJoinClause_def Let_def
    using assms d j
    by (intro returns_bind returns_if returns_onError returns_parseExpression)
      (auto simp: returns_pair curTokenIs_def)
  with d show ?thesis
    by simp
qed

lemma returns_parseSelectStatement_joins:
  "ctx p = None \<Longrightarrow> pending p \<le> k \<Longrightarrow> 4 * k + 1 \<le> n \<Longrightarrow>
     returns k (parseSelectStatement_joins lib n stmt p)"
proof (induction n arbitrary: k p stmt)
  case 0
  then show ?case by simp
next
  case (Suc n)
  show ?case
  proof (cases "Type (curToken p) \<in> {JOIN, INNER, LEFT, RIGHT, FULL}")
    case False
    with Suc.prems show ?thesis by (simp add: curTokenIs_def)
  next
    case True
    with Suc.prems have j: "returns (k - 1) (parseJoinClause lib n p)" "0 < k"
      using returns_parseJoinClause [of p k n lib] by auto
    have "returns (k - 1) (parseSelectStatement_joins lib (Suc n) stmt p)"
      using True Suc.prems j
      by (auto simp: curTokenIs_def intro!: Suc.IH)
    then show ?thesis
      by (rule returns_mono) simp
  qed
qed

lemma returns_parseGroupByClause_loop:
  "ctx p = None \<Longrightarrow> pending p \<le> k \<Longrightarrow> 4 * k + 1 \<le> n \<Longrightarrow>
     returns k (parseGroupByClause_loop lib n expressions p)"
proof (induction n arbitrary: k p expressions)
  case 0
  then show ?case by simp
next
  case (Suc n)
  show ?case
  proof (cases "curTokenIs COMMA p")
    case False
    with Suc.prems show ?thesis by simp
  next
    case True
    with Suc.prems have d: "pending (nextToken p) \<le> k - 1" "0 < k"
      using pending_nextToken_less [of p k] by (auto simp: curTokenIs_def)
    have "returns (k - 1) (parseGroupByClause_loop lib (Suc n) expressions p)"
      using True Suc.prems d
      by (auto simp: Let_def intro!: returns_parseExpression Suc.IH)
    then show ?thesis
      by (rule returns_mono) simp
  qed
qed

lemma returns_parseGroupByClause:
  "ctx p = None \<Longrightarrow> pending p \<le> k \<Longrightarrow> 4 * k + 4 \<le> n \<Longrightarrow>
     returns k (parseGroupByClause lib n p)"
  by (auto simp: parseGroupByClause_def Let_def expectPeek_def
      intro!: returns_parseExpression returns_parseGroupByClause_loop)

lemma returns_parseOrderByItem:
  "ctx p = None \<Longrightarrow> pending p \<le> k \<Longrightarrow> 4 * k + 4 \<le> n \<Longrightarrow>
     returns k (parseOrderByItem lib n p)"
  by (auto simp: parseOrderByItem_def Let_def intro!: returns_parseExpression)

lemma returns_parseOrderByClause_loop:
  "ctx p = None \<Longrightarrow> pending p \<le> k \<Longrightarrow> 4 * k + 1 \<le> n \<Longrightarrow>
     returns k (parseOrderByClause_loop lib n clauses p)"
proof (induction n arbitrary: k p clauses)
  case 0
  then show ?case by simp
next
  case (Suc n)
  show ?case
  proof (cases "curTokenIs COMMA p")
    case False
    with Suc.prems show ?thesis by simp
  next
    case True
    with Suc.prems have d: "pending (nextToken p) \<le> k - 1" "0 < k"
      using pending_nextToken_less [of p k] by (auto simp: curTokenIs_def)
    have "returns (k - 1) (parseOrderByClause_loop lib (Suc n) clauses p)"
      using True Suc.prems d
      by (auto simp: Let_def intro!: returns_parseOrderByItem Suc.IH)
    then show ?thesis
      by (rule returns_mono) simp
  qed
qed

lemma returns_parseOrderByClause:
  "ctx p = None \<Longrightarrow> pending p \<le> k \<Longrightarrow> 4 * k + 4 \<le> n \<Longrightarrow>
     returns k (parseOrderByClause lib n p)"
  by (auto simp: parseOrderByClause_def Let_def expectPeek_def
      intro!: returns_parseOrderByItem returns_parseOrderByClause_loop)

lemma returns_parseSelectStatement:
  "ctx p = None \<Longrightarrow> pending p \<le> k \<Longrightarrow> 4 * k + 4 \<le> n \<Longrightarrow>
     returns k (parseSelectStatement lib n p)"
  unfolding parseSelectStatement_def Let_def
  by (intro returns_bind returns_if returns_parseExpression returns_parseSelectList
      returns_parseFromClause returns_parseSelectStatement_joins returns_parseGroupByClause
      returns_parseOrderByClause)
    (simp_all add: returns_pair)

lemma returns_ParseStatement:
  "ctx p = None \<Longrightarrow> pending p \<le> k \<Longrightarrow> 4 * k + 4 \<le> n \<Longrightarrow>
     returns k (ParseStatement lib n p)"
  unfolding ParseStatement_def parseInsertStatement_def parseUpdateStatement_def
    parseDeleteStatement_def
  by (intro returns_bind returns_if returns_parseSelectStatement) simp_all

lemma ParseStatement_returns:
  "ctx p = None \<Longrightarrow> \<exists>r q. ParseStatement lib (4 * pending p + 4) p = Some (r, q)"
  using returns_ParseStatement [of p "pending p" "4 * pending p + 4" lib]
  by (auto simp: returns_def)

lemma ParseStatement_pair_returns:
  "ctx p = None \<Longrightarrow>
     \<exists>s err q. ParseStatement_pair lib (4 * pending p + 4) p = Some ((s, err), q)"
proof -
  assume "ctx p = None"
  then have "ParseStatement lib (4 * pending p + 4) p \<noteq> None"
    using ParseStatement_returns [of p lib] by auto
  then have "ParseStatement_pair lib (4 * pending p + 4) p \<noteq> None"
    by (simp add: ParseStatement_pair_None)
  then show ?thesis
    by auto
qed


section \<open>Chains of infix operators\<close>

text \<open>
  A chain of primaries that are neither parenthesised nor function calls, linked by
  infix operators and followed by a token \<open>u\<close> that is no infix operator, dot or
  opening parenthesis, is parsed into the left-nested tree, whatever the operators;
  the parser stops at \<open>u\<close>.
\<close>

lemma primary_shape:
  "primary lib ts = Some e \<Longrightarrow> (\<exists>t. ts = [t]) \<or> (\<exists>t d c. ts = [t, d, c])"
  by (cases "(lib, ts)" rule: primary.cases) auto

lemma primary_parsed:
  assumes "primary lib ts = Some e" and "reads p (ts @ u # us)"
    and "Type u \<noteq> DOT" and "Type u \<noteq> LPAREN"
  shows "\<exists>q. parsePrimaryExpression lib (Suc (Suc n)) p = Some (Inr e, q) \<and> reads q (u # us)"
proof -
  from primary_shape [OF assms(1)] consider (one) t where "ts = [t]"
    | (three) t d c where "ts = [t, d, c]"
    by blast
  then show ?thesis
  proof cases
  case (one t)
  with assms(2) have c: "curToken p = t" and r: "reads (nextToken p) (u # us)"
    by (simp_all add: reads_Cons)
  from r have u: "curToken (nextToken p) = u"
    by (rule reads_cur)
  from one assms(1,3,4) c r u show ?thesis
    by (auto simp: Let_def curTokenIs_def parseNumberLiteral_def parseStringLiteral_def
        split: if_splits option.splits)
next
  case (three t d c)
  with assms(2) have c1: "curToken p = t" and r1: "reads (nextToken p) (d # c # u # us)"
    by (simp_all add: reads_Cons)
  from r1 have c2: "curToken (nextToken p) = d"
    and r2: "reads (nextToken (nextToken p)) (c # u # us)"
    by (simp_all add: reads_Cons)
  from r2 have c3: "curToken (nextToken (nextToken p)) = c"
    and r3: "reads (nextToken (nextToken (nextToken p))) (u # us)"
    by (simp_all add: reads_Cons)
  have g: "nextToken (GetColumnReference q) = GetColumnReference (nextToken q)" for q
    by (cases "ctx q"; cases "the (ctx q)"; cases "l q")
      (simp_all add: nextToken_def advance_def GetNode_def NextToken_def)
  from three assms(1) c1 c2 c3 r3 show ?thesis
    by (auto simp: Let_def curTokenIs_def g split: if_splits)
  qed
qed

lemma infix_follows: "isInfixOperator t \<Longrightarrow> t \<noteq> DOT \<and> t \<noteq> LPAREN"
  by (auto simp: isInfixOperator_def)

lemma links_head:
  assumes "list_all (link lib) links" and "Type u \<noteq> DOT" and "Type u \<noteq> LPAREN"
  obtains u' us' where "linkTokens links @ u # us = u' # us'"
    and "Type u' \<noteq> DOT" and "Type u' \<noteq> LPAREN"
proof (cases links)
  case Nil
  with assms that show ?thesis
    by (simp add: linkTokens_def)
next
  case (Cons x xs)
  with assms(1) have "isInfixOperator (Type (fst x))"
    by (simp add: link_def)
  with Cons that show ?thesis
    by (auto simp: linkTokens_def dest: infix_follows)
qed

lemma links_parsed:
  assumes "list_all (link lib) links" and "reads p (linkTokens links @ u # us)"
    and "\<not> isInfixOperator (Type u)" and "Type u \<noteq> DOT" and "Type u \<noteq> LPAREN"
  shows "\<exists>q. parseInfixExpression_loop lib (length links + 3) left p =
      Some (Inr (leftNested lib left links), q) \<and> reads q (u # us)"
  using assms(1,2)
proof (induction links arbitrary: left p)
  case Nil
  then have "curToken p = u"
    by (simp add: linkTokens_def reads_cur)
  with Nil assms(3) show ?case
    by (simp add: numeral_3_eq_3 leftNested_def linkTokens_def)
next
  case (Cons x links)
  obtain op ts where x: "x = (op, ts)"
    by (cases x)
  from Cons.prems(1) have lx: "link lib x" and rest: "list_all (link lib) links"
    by simp_all
  from lx x obtain e where op: "isInfixOperator (Type op)" and e: "primary lib ts = Some e"
    by (auto simp: link_def)
  from rest assms(4,5) obtain u' us' where u': "linkTokens links @ u # us = u' # us'"
    "Type u' \<noteq> DOT" "Type u' \<noteq> LPAREN"
    by (rule links_head)
  from Cons.prems(2) x have r: "reads p (op # ts @ u' # us')"
    by (simp add: linkTokens_def u' [unfolded linkTokens_def])
  then have c: "curToken p = op" and r1: "reads (nextToken p) (ts @ u' # us')"
    by (simp_all add: reads_Cons)
  from primary_parsed [OF e r1 u'(2,3), of "length links + 1"] obtain q1 where
    q1: "parsePrimaryExpression lib (length links + 3) (nextToken p) = Some (Inr e, q1)"
    and r2: "reads q1 (u' # us')"
    by (auto simp: numeral_3_eq_3)
  from r2 have "reads (GetBinaryExpression q1) (linkTokens links @ u # us)"
    by (simp add: u')
  from Cons.IH [OF rest this, of "BinaryExpression left (Literal op) e"] obtain q where
    "parseInfixExpression_loop lib (length links + 3)
       (BinaryExpression left (Literal op) e) (GetBinaryExpression q1) =
     Some (Inr (leftNested lib (BinaryExpression left (Literal op) e) links), q)"
    and "reads q (u # us)"
    by blast
  moreover have "length (x # links) + 3 = Suc (length links + 3)"
    by simp
  ultimately show ?case
    using op c q1 x e
    by (simp only: parseInfixExpression_loop.simps Let_def bind_def leftNested_def
        foldl_Cons fst_conv snd_conv option.sel option.case sum.case prod.case if_True)
      blast
qed

lemma chain_left_nested:
  assumes "primary lib ts = Some e" and "list_all (link lib) links"
    and "reads p (ts @ linkTokens links @ u # us)"
    and "\<not> isInfixOperator (Type u)" and "Type u \<noteq> DOT" and "Type u \<noteq> LPAREN"
  shows "\<exists>q. parseExpression lib (length links + 4) p =
      Some (Inr (leftNested lib e links), q) \<and> reads q (u # us)"
proof -
  from assms(2,5,6) obtain u' us' where u': "linkTokens links @ u # us = u' # us'"
    "Type u' \<noteq> DOT" "Type u' \<noteq> LPAREN"
    by (rule links_head)
  from assms(3) have "reads p (ts @ u' # us')"
    by (simp add: u')
  from primary_parsed [OF assms(1) this u'(2,3), of "length links + 1"] obtain q1 where
    q1: "parsePrimaryExpression lib (length links + 3) p = Some (Inr e, q1)"
    and r: "reads q1 (linkTokens links @ u # us)"
    by (auto simp: numeral_3_eq_3 u')
  from links_parsed [OF assms(2) r assms(4,5,6), of e] obtain q where
    "parseInfixExpression_loop lib (length links + 3) e q1 =
       Some (Inr (leftNested lib e links), q)"
    and "reads q (u # us)"
    by blast
  moreover have "length links + 4 = Suc (length links + 3)"
    by simp
  ultimately show ?thesis
    using q1
    by (simp only: parseExpression.simps parseInfixExpression.simps bind_def option.case
        sum.case prod.case)
      blast
qed

text \<open>\<^verbatim>\<open>a + b * c\<close> is parsed as \<^verbatim>\<open>(a + b) * c\<close>.\<close>

lemma chain_example:
  "report (ParseStatement exampleLib 20 (New chainQuery)) =
     Some (Inr (SelectStmt (emptySelectStatement\<lparr>Columns :=
             [BinaryExpression
               (BinaryExpression (ColumnReference [] ''a'') ''+'' (ColumnReference [] ''b''))
               ''*'' (ColumnReference [] ''c'')]\<rparr>)),
           [],
           [Get SelectStatementNode, Get ColumnReferenceNode, Get ColumnReferenceNode,
            Get BinaryExpressionNode, Get ColumnReferenceNode, Get BinaryExpressionNode])"
  by code_simp

section \<open>Parenthesised expressions\<close>

text \<open>
  A parenthesised chain of such primaries is rejected unless the token after the
  closing parenthesis is a closing parenthesis too: after the chain the closing
  parenthesis is the current token, and \<^verbatim>\<open>parseGroupedExpression\<close> looks for it in
  the token after.
\<close>

lemma grouped_chain_fails:
  assumes "Type lp = LPAREN" and "primary lib ts = Some e" and "list_all (link lib) links"
    and "Type rp = RPAREN" and "Type u \<noteq> RPAREN"
    and "reads p (lp # ts @ linkTokens links @ rp # u # us)"
  shows "\<exists>q. parsePrimaryExpression lib (length links + 6) p =
    Some (Inl (Errorf ''expected ')' to close grouped expression'' []), q)"
proof -
  from assms(6) have c: "curToken p = lp"
    and r: "reads (nextToken p) (ts @ linkTokens links @ rp # u # us)"
    by (simp_all add: reads_Cons)
  have "\<not> isInfixOperator (Type rp)" "Type rp \<noteq> DOT" "Type rp \<noteq> LPAREN"
    using assms(4) by (simp_all add: isInfixOperator_def)
  from chain_left_nested [OF assms(2,3) r this] obtain q where
    q: "parseExpression lib (length links + 4) (nextToken p) =
      Some (Inr (leftNested lib e links), q)"
    and rq: "reads q (rp # u # us)"
    by blast
  from rq have "peekToken q = u"
    by (rule reads_peek)
  with assms(5) have "expectPeek RPAREN q = (False, peekError RPAREN q)"
    by (simp add: expectPeek_def peekTokenIs_def)
  moreover have "length links + 6 = Suc (Suc (length links + 4))"
    by simp
  ultimately show ?thesis
    using c assms(1) q
    by (simp only: parsePrimaryExpression.simps parseGroupedExpression.simps Let_def
        bind_def option.case sum.case prod.case bool.case TokenType.simps if_True if_False)
      simp
qed

text \<open>
  Claim C7. The claim asks that \<^verbatim>\<open>( expr )\<close> is accepted where a primary is
  expected. On \<^verbatim>\<open>SELECT (a) FROM t\<close> the parser returns the error
  "expected ')' to close grouped expression" and records a syntax error at \<open>FROM\<close>
  (line 1, column 12): after the inner expression the closing parenthesis is the
  current token, and \<^verbatim>\<open>parseGroupedExpression\<close> looks for it in the token after.
  This is the outcome for every fuel from 20 on and every choice of the library
  functions.
\<close>

theorem grouped_expression_rejected:
  "report (ParseStatement lib (20 + k) (New groupedQuery)) =
     Some (Inl (Errorf ''expected ')' to close grouped expression'' []),
           [SyntaxError RPAREN FROM 1 12],
           [Get SelectStatementNode, Get ColumnReferenceNode])"
proof -
  have "report (ParseStatement lib 20 (New groupedQuery)) =
       Some (Inl (Errorf ''expected ')' to close grouped expression'' []),
             [SyntaxError RPAREN FROM 1 12],
             [Get SelectStatementNode, Get ColumnReferenceNode])"
    by code_simp
  then show ?thesis
    by (rule report_more_fuel) simp
qed

text \<open>
  Claim C6. The claim asks that every chain of primaries and infix operators becomes a
  left-nested tree. A chain whose first primary is parenthesised,
  \<^verbatim>\<open>SELECT (a) + b FROM t\<close>, is rejected with the error of claim C7 (the syntax
  error is recorded at \<open>+\<close>, line 1, column 12), for every fuel from 20 on and
  every choice of the library functions.
\<close>

theorem grouped_chain_rejected:
  "report (ParseStatement lib (20 + k) (New groupedChainQuery)) =
     Some (Inl (Errorf ''expected ')' to close grouped expression'' []),
           [SyntaxError RPAREN PLUS 1 12],
           [Get SelectStatementNode, Get ColumnReferenceNode])"
proof -
  have "report (ParseStatement lib 20 (New groupedChainQuery)) =
       Some (Inl (Errorf ''expected ')' to close grouped expression'' []),
             [SyntaxError RPAREN PLUS 1 12],
             [Get SelectStatementNode, Get ColumnReferenceNode])"
    by code_simp
  then show ?thesis
    by (rule report_more_fuel) simp
qed

end
